theory Spec2Isabelle
  imports Main "HOL-Library.Word" "HOL-Library.Signed_Division"
begin

unbundle bit_operations_syntax

section \<open>The DreamScaler USB controller: data model\<close>

text \<open>
  The firmware \<^verbatim>\<open>ds_usb_controller.ino\<close> targets AVR boards (Arduino Uno, Nano, Mega):
  \<^verbatim>\<open>uint8_t\<close> is an 8-bit word, \<^verbatim>\<open>uint16_t\<close> and \<^verbatim>\<open>int\<close> are 16-bit
  words, \<^verbatim>\<open>long\<close> has 32 bits. Loop counters of type \<^verbatim>\<open>uint16_t\<close> are read as
  natural numbers: every counting loop of the source is bounded by a value below
  \<open>2 ^ 16\<close>, so none of them wraps.
\<close>

type_synonym u8 = "8 word"
type_synonym u16 = "16 word"

text \<open>The \<^verbatim>\<open>RGBW\<close> struct of the LED library: four 8-bit channels.\<close>

record RGBW =
  r :: u8
  g :: u8
  b :: u8
  w :: u8

definition off :: RGBW where
  "off = \<lparr>r = 0, g = 0, b = 0, w = 0\<rparr>"

subsection \<open>The LED library object\<close>

text \<open>
  Modelled from the spec: the class \<^verbatim>\<open>SK6812\<close> of \<^verbatim>\<open>SK6812.h\<close> is not part of
  the sources at hand. The spec describes it as the Pixel Store: an index-addressable
  sequence of pixels of fixed capacity, whose \<open>write(index, color)\<close> overwrites the pixel
  when the index is below the capacity and fails (changing nothing) otherwise, and whose
  \<open>commit()\<close> pushes the buffer to the hardware without touching it. The constructor
  allocates the buffer without clearing it, so the fresh pixels hold whatever the memory
  held before; that content is the parameter \<open>fill\<close>.
\<close>

record SK6812 =
  pixels :: "RGBW list"
  out_pin :: u8

definition SK6812_new :: "RGBW \<Rightarrow> u16 \<Rightarrow> SK6812" where
  "SK6812_new fill num_leds = \<lparr>pixels = replicate (unat num_leds) fill, out_pin = 0\<rparr>"

definition set_output :: "u8 \<Rightarrow> SK6812 \<Rightarrow> SK6812" where
  "set_output pin st = st\<lparr>out_pin := pin\<rparr>"

definition set_rgbw :: "nat \<Rightarrow> RGBW \<Rightarrow> SK6812 \<Rightarrow> SK6812" where
  "set_rgbw index px st =
     (if index < length (pixels st) then st\<lparr>pixels := (pixels st)[index := px]\<rparr> else st)"

subsection \<open>The engine state\<close>

text \<open>
  The global variables of the sketch, followed by the environment they act on:
  \<^item> \<open>rx\<close>: the bytes the serial line still delivers, each with its arrival time in
    milliseconds; a byte is readable once the clock has reached its arrival time and all
    bytes before it are readable;
  \<^item> \<open>tx\<close>: the bytes written to the serial line so far;
  \<^item> \<open>clock\<close>: the value of \<^verbatim>\<open>millis()\<close>. Time passes only while the engine polls
    the serial line or sleeps in \<^verbatim>\<open>delay\<close>. The source subtracts two readings of
    \<^verbatim>\<open>millis()\<close> in unsigned arithmetic, which is exact across a wrap of the counter,
    so the clock is an unbounded natural number;
  \<^item> \<open>frames\<close>: the pixel buffers pushed to the LED strip by \<^verbatim>\<open>sync()\<close>, oldest first;
  \<^item> \<open>junk\<close>: the content of freshly allocated memory;
  \<^item> \<open>fault\<close>: set when \<^verbatim>\<open>ledStrip\<close> is dereferenced while it is the null pointer.
\<close>

record engine =
  ledStrip :: "SK6812 option"
  ledCount :: u16
  ledPin :: u8
  stripInitialized :: bool
  globalBrightness :: u8
  cmdBufferPos :: u16
  streamMode :: bool
  streamIndex :: u16
  streamCount :: u16
  rx :: "(nat \<times> u8) list"
  tx :: "u8 list"
  clock :: nat
  frames :: "RGBW list list"
  junk :: RGBW
  fault :: bool

abbreviation (input) DEFAULT_LED_COUNT :: u16 where "DEFAULT_LED_COUNT \<equiv> 107"
abbreviation (input) DEFAULT_LED_PIN :: u8 where "DEFAULT_LED_PIN \<equiv> 6"
abbreviation (input) PROTOCOL_VERSION :: u8 where "PROTOCOL_VERSION \<equiv> 11"

abbreviation (input) CMD_PING :: u8 where "CMD_PING \<equiv> 0x01"
abbreviation (input) CMD_GET_INFO :: u8 where "CMD_GET_INFO \<equiv> 0x02"
abbreviation (input) CMD_RESET :: u8 where "CMD_RESET \<equiv> 0x03"
abbreviation (input) CMD_SET_LED_COUNT :: u8 where "CMD_SET_LED_COUNT \<equiv> 0x10"
abbreviation (input) CMD_SET_LED_PIN :: u8 where "CMD_SET_LED_PIN \<equiv> 0x11"
abbreviation (input) CMD_INIT_STRIP :: u8 where "CMD_INIT_STRIP \<equiv> 0x12"
abbreviation (input) CMD_SET_PIXEL_RGBW :: u8 where "CMD_SET_PIXEL_RGBW \<equiv> 0x20"
abbreviation (input) CMD_SET_PIXEL_RGB :: u8 where "CMD_SET_PIXEL_RGB \<equiv> 0x21"
abbreviation (input) CMD_SET_PIXEL_W :: u8 where "CMD_SET_PIXEL_W \<equiv> 0x22"
abbreviation (input) CMD_SET_RANGE_RGBW :: u8 where "CMD_SET_RANGE_RGBW \<equiv> 0x30"
abbreviation (input) CMD_SET_ALL_RGBW :: u8 where "CMD_SET_ALL_RGBW \<equiv> 0x31"
abbreviation (input) CMD_CLEAR_ALL :: u8 where "CMD_CLEAR_ALL \<equiv> 0x32"
abbreviation (input) CMD_BUFFER_START :: u8 where "CMD_BUFFER_START \<equiv> 0x40"
abbreviation (input) CMD_BUFFER_PIXEL :: u8 where "CMD_BUFFER_PIXEL \<equiv> 0x41"
abbreviation (input) CMD_BUFFER_END :: u8 where "CMD_BUFFER_END \<equiv> 0x42"
abbreviation (input) CMD_STREAM_START :: u8 where "CMD_STREAM_START \<equiv> 0x50"
abbreviation (input) CMD_STREAM_DATA :: u8 where "CMD_STREAM_DATA \<equiv> 0x51"
abbreviation (input) CMD_STREAM_END :: u8 where "CMD_STREAM_END \<equiv> 0x52"
abbreviation (input) CMD_BULK_UPDATE :: u8 where "CMD_BULK_UPDATE \<equiv> 0x55"
abbreviation (input) CMD_SYNC :: u8 where "CMD_SYNC \<equiv> 0x60"
abbreviation (input) CMD_FILL_GRADIENT :: u8 where "CMD_FILL_GRADIENT \<equiv> 0x70"
abbreviation (input) CMD_BRIGHTNESS :: u8 where "CMD_BRIGHTNESS \<equiv> 0x71"
abbreviation (input) RESP_OK :: u8 where "RESP_OK \<equiv> 0xF0"
abbreviation (input) RESP_PONG :: u8 where "RESP_PONG \<equiv> 0xF1"
abbreviation (input) RESP_INFO :: u8 where "RESP_INFO \<equiv> 0xF2"
abbreviation (input) RESP_ERROR :: u8 where "RESP_ERROR \<equiv> 0xFE"
abbreviation (input) RESP_UNKNOWN_CMD :: u8 where "RESP_UNKNOWN_CMD \<equiv> 0xFF"

abbreviation (input) ERR_BUFFER_OVERFLOW :: u8 where "ERR_BUFFER_OVERFLOW \<equiv> 0x01"
abbreviation (input) ERR_INVALID_PARAM :: u8 where "ERR_INVALID_PARAM \<equiv> 0x02"
abbreviation (input) ERR_NOT_INITIALIZED :: u8 where "ERR_NOT_INITIALIZED \<equiv> 0x03"
abbreviation (input) ERR_OUT_OF_RANGE :: u8 where "ERR_OUT_OF_RANGE \<equiv> 0x04"
abbreviation (input) ERR_TIMEOUT :: u8 where "ERR_TIMEOUT \<equiv> 0x05"

section \<open>The serial line and the clock\<close>

definition millis :: "engine \<Rightarrow> nat" where
  "millis s = clock s"

definition delay :: "nat \<Rightarrow> engine \<Rightarrow> engine" where
  "delay ms s = s\<lparr>clock := clock s + ms\<rparr>"

definition Serial_available :: "engine \<Rightarrow> nat" where
  "Serial_available s = length (takeWhile (\<lambda>p. fst p \<le> clock s) (rx s))"

text \<open>
  \<^verbatim>\<open>Serial.read()\<close> returns an \<^verbatim>\<open>int\<close>: the next byte, or \<open>-1\<close> when none is
  readable.
\<close>

definition Serial_read :: "engine \<Rightarrow> u16 \<times> engine" where
  "Serial_read s =
     (case rx s of
        [] \<Rightarrow> (- 1, s)
      | p # rest \<Rightarrow> if fst p \<le> clock s then (ucast (snd p), s\<lparr>rx := rest\<rparr>) else (- 1, s))"

definition Serial_write :: "u8 \<Rightarrow> engine \<Rightarrow> engine" where
  "Serial_write x s = s\<lparr>tx := tx s @ [x]\<rparr>"

definition sendResponse :: "u8 \<Rightarrow> engine \<Rightarrow> engine" where
  "sendResponse response s = Serial_write response s"

definition sendError :: "u8 \<Rightarrow> engine \<Rightarrow> engine" where
  "sendError errorCode s = Serial_write errorCode (Serial_write RESP_ERROR s)"

definition sendInfo :: "engine \<Rightarrow> engine" where
  "sendInfo s =
     Serial_write (globalBrightness s)
      (Serial_write (if stripInitialized s then 1 else 0)
       (Serial_write (ledPin s)
        (Serial_write (ucast (ledCount s AND 0xFF))
         (Serial_write (ucast (drop_bit 8 (ledCount s) AND 0xFF))
          (Serial_write PROTOCOL_VERSION
           (Serial_write RESP_INFO s))))))"

text \<open>
  The busy-wait of \<^verbatim>\<open>waitForBytes\<close> (and of the bulk transfer): poll until \<open>count\<close>
  bytes are readable; give up with a Timeout error once more than \<open>timeout\<close>
  milliseconds have passed since \<open>startTime\<close>. One round of polling takes one
  millisecond.
\<close>

function waitLoop :: "nat \<Rightarrow> nat \<Rightarrow> nat \<Rightarrow> engine \<Rightarrow> bool \<times> engine" where
  "waitLoop count startTime timeout s =
     (if Serial_available s < count then
        (if millis s - startTime > timeout then (False, sendError ERR_TIMEOUT s)
         else waitLoop count startTime timeout (delay 1 s))
      else (True, s))"
  by pat_completeness auto
termination
  by (relation "measure (\<lambda>(count, startTime, timeout, s). startTime + timeout + 1 - clock s)")
     (auto simp: millis_def delay_def)

declare waitLoop.simps [simp del]

definition waitForBytes :: "nat \<Rightarrow> nat \<Rightarrow> engine \<Rightarrow> bool \<times> engine" where
  "waitForBytes count timeout s = waitLoop count (millis s) timeout s"

text \<open>
  Two reads joined as \<^verbatim>\<open>(Serial.read() << 8) | Serial.read()\<close>, the first read being
  the high byte, computed in \<^verbatim>\<open>int\<close> and stored in a \<^verbatim>\<open>uint16_t\<close>.
\<close>

definition read16 :: "engine \<Rightarrow> u16 \<times> engine" where
  "read16 s =
     (let (hi, s1) = Serial_read s;
          (lo, s2) = Serial_read s1
      in (push_bit 8 hi OR lo, s2))"

text \<open>One read stored in a \<^verbatim>\<open>uint8_t\<close>.\<close>

definition read8 :: "engine \<Rightarrow> u8 \<times> engine" where
  "read8 s = (let (x, s1) = Serial_read s in (ucast x, s1))"

text \<open>The four reads that fill the channels of a colour, in the order r, g, b, w.\<close>

definition readRGBW :: "engine \<Rightarrow> RGBW \<times> engine" where
  "readRGBW s =
     (let (cr, s1) = read8 s;
          (cg, s2) = read8 s1;
          (cb, s3) = read8 s2;
          (cw, s4) = read8 s3
      in (\<lparr>r = cr, g = cg, b = cb, w = cw\<rparr>, s4))"

section \<open>Brightness\<close>

text \<open>
  \<^verbatim>\<open>(channel * globalBrightness) >> 8\<close>: both operands are promoted to the 16-bit
  \<^verbatim>\<open>int\<close>, the product keeps its low 16 bits, the shift is the arithmetic one, and the
  result is stored in a \<^verbatim>\<open>uint8_t\<close>.
\<close>

definition scale8 :: "u8 \<Rightarrow> u8 \<Rightarrow> u8" where
  "scale8 bri v = ucast (signed_drop_bit 8 ((ucast v :: u16) * ucast bri))"

definition applyBrightness :: "engine \<Rightarrow> RGBW \<Rightarrow> RGBW" where
  "applyBrightness s color =
     (if globalBrightness s < 255 then
        \<lparr>r = scale8 (globalBrightness s) (r color),
         g = scale8 (globalBrightness s) (g color),
         b = scale8 (globalBrightness s) (b color),
         w = scale8 (globalBrightness s) (w color)\<rparr>
      else color)"

section \<open>The strip behind the global pointer\<close>

text \<open>\<^verbatim>\<open>ledStrip->set_rgbw(index, color)\<close> and \<^verbatim>\<open>ledStrip->sync()\<close>.\<close>

definition strip_set_rgbw :: "nat \<Rightarrow> RGBW \<Rightarrow> engine \<Rightarrow> engine" where
  "strip_set_rgbw index color s =
     (case ledStrip s of
        None \<Rightarrow> s\<lparr>fault := True\<rparr>
      | Some st \<Rightarrow> s\<lparr>ledStrip := Some (set_rgbw index color st)\<rparr>)"

definition strip_sync :: "engine \<Rightarrow> engine" where
  "strip_sync s =
     (case ledStrip s of
        None \<Rightarrow> s\<lparr>fault := True\<rparr>
      | Some st \<Rightarrow> s\<lparr>frames := frames s @ [pixels st]\<rparr>)"

definition initializeStrip :: "u16 \<Rightarrow> u8 \<Rightarrow> engine \<Rightarrow> engine" where
  "initializeStrip count pin s =
     (let s1 = s\<lparr>ledStrip := None\<rparr>;
          s2 = s1\<lparr>ledCount := count\<rparr>;
          s3 = s2\<lparr>ledPin := pin\<rparr>;
          s4 = s3\<lparr>ledStrip := Some (set_output (ledPin s3) (SK6812_new (junk s3) (ledCount s3)))\<rparr>;
          s5 = fold (\<lambda>i. strip_set_rgbw i off) [0..<unat (ledCount s4)] s4;
          s6 = strip_sync s5
      in s6\<lparr>stripInitialized := True\<rparr>)"

section \<open>The command handlers\<close>

definition cmdSetLedCount :: "engine \<Rightarrow> engine" where
  "cmdSetLedCount s =
     (case waitForBytes 2 1000 s of
        (False, s1) \<Rightarrow> s1
      | (True, s1) \<Rightarrow>
          (let (count, s2) = read16 s1
           in if count > 0 \<and> count \<le> 1000 then sendResponse RESP_OK (s2\<lparr>ledCount := count\<rparr>)
              else sendError ERR_INVALID_PARAM s2))"

definition cmdSetLedPin :: "engine \<Rightarrow> engine" where
  "cmdSetLedPin s =
     (case waitForBytes 1 1000 s of
        (False, s1) \<Rightarrow> s1
      | (True, s1) \<Rightarrow>
          (let (pin, s2) = read8 s1
           in if pin < 20 then sendResponse RESP_OK (s2\<lparr>ledPin := pin\<rparr>)
              else sendError ERR_INVALID_PARAM s2))"

definition cmdSetPixelRGBW :: "engine \<Rightarrow> engine" where
  "cmdSetPixelRGBW s =
     (if \<not> stripInitialized s then sendError ERR_NOT_INITIALIZED s
      else case waitForBytes 6 1000 s of
        (False, s1) \<Rightarrow> s1
      | (True, s1) \<Rightarrow>
          (let (index, s2) = read16 s1;
               (color, s3) = readRGBW s2;
               color = applyBrightness s3 color
           in if index < ledCount s3 then
                sendResponse RESP_OK (strip_sync (strip_set_rgbw (unat index) color s3))
              else sendError ERR_OUT_OF_RANGE s3))"

definition cmdSetPixelRGB :: "engine \<Rightarrow> engine" where
  "cmdSetPixelRGB s =
     (if \<not> stripInitialized s then sendError ERR_NOT_INITIALIZED s
      else case waitForBytes 5 1000 s of
        (False, s1) \<Rightarrow> s1
      | (True, s1) \<Rightarrow>
          (let (index, s2) = read16 s1;
               (cr, s3) = read8 s2;
               (cg, s4) = read8 s3;
               (cb, s5) = read8 s4;
               color = \<lparr>r = cr, g = cg, b = cb, w = 0\<rparr>;
               color = applyBrightness s5 color
           in if index < ledCount s5 then
                sendResponse RESP_OK (strip_sync (strip_set_rgbw (unat index) color s5))
              else sendError ERR_OUT_OF_RANGE s5))"

definition cmdSetPixelW :: "engine \<Rightarrow> engine" where
  "cmdSetPixelW s =
     (if \<not> stripInitialized s then sendError ERR_NOT_INITIALIZED s
      else case waitForBytes 3 1000 s of
        (False, s1) \<Rightarrow> s1
      | (True, s1) \<Rightarrow>
          (let (index, s2) = read16 s1;
               color = \<lparr>r = 0, g = 0, b = 0, w = 0\<rparr>;
               (cw, s3) = read8 s2;
               color = color\<lparr>w := cw\<rparr>;
               color = applyBrightness s3 color
           in if index < ledCount s3 then
                sendResponse RESP_OK (strip_sync (strip_set_rgbw (unat index) color s3))
              else sendError ERR_OUT_OF_RANGE s3))"

definition cmdSetRangeRGBW :: "engine \<Rightarrow> engine" where
  "cmdSetRangeRGBW s =
     (if \<not> stripInitialized s then sendError ERR_NOT_INITIALIZED s
      else case waitForBytes 8 1000 s of
        (False, s1) \<Rightarrow> s1
      | (True, s1) \<Rightarrow>
          (let (start, s2) = read16 s1;
               (end, s3) = read16 s2;
               (color, s4) = readRGBW s3;
               color = applyBrightness s4 color
           in if start < ledCount s4 \<and> end < ledCount s4 \<and> start \<le> end then
                sendResponse RESP_OK
                  (strip_sync
                    (fold (\<lambda>i. strip_set_rgbw i color) [unat start..<Suc (unat end)] s4))
              else sendError ERR_OUT_OF_RANGE s4))"

definition cmdSetAllRGBW :: "engine \<Rightarrow> engine" where
  "cmdSetAllRGBW s =
     (if \<not> stripInitialized s then sendError ERR_NOT_INITIALIZED s
      else case waitForBytes 4 1000 s of
        (False, s1) \<Rightarrow> s1
      | (True, s1) \<Rightarrow>
          (let (color, s2) = readRGBW s1;
               color = applyBrightness s2 color
           in sendResponse RESP_OK
                (strip_sync
                  (fold (\<lambda>i. strip_set_rgbw i color) [0..<unat (ledCount s2)] s2))))"

definition cmdClearAll :: "engine \<Rightarrow> engine" where
  "cmdClearAll s =
     (if \<not> stripInitialized s then sendError ERR_NOT_INITIALIZED s
      else sendResponse RESP_OK
             (strip_sync (fold (\<lambda>i. strip_set_rgbw i off) [0..<unat (ledCount s)] s)))"

definition cmdBufferStart :: "engine \<Rightarrow> engine" where
  "cmdBufferStart s = sendResponse RESP_OK (s\<lparr>cmdBufferPos := 0\<rparr>)"

definition cmdBufferPixel :: "engine \<Rightarrow> engine" where
  "cmdBufferPixel s =
     (if \<not> stripInitialized s then sendError ERR_NOT_INITIALIZED s
      else case waitForBytes 6 1000 s of
        (False, s1) \<Rightarrow> s1
      | (True, s1) \<Rightarrow>
          (let (index, s2) = read16 s1;
               (color, s3) = readRGBW s2;
               color = applyBrightness s3 color
           in if index < ledCount s3 then
                sendResponse RESP_OK (strip_set_rgbw (unat index) color s3)
              else sendError ERR_OUT_OF_RANGE s3))"

definition cmdBufferEnd :: "engine \<Rightarrow> engine" where
  "cmdBufferEnd s =
     (if \<not> stripInitialized s then sendError ERR_NOT_INITIALIZED s
      else sendResponse RESP_OK ((strip_sync s)\<lparr>cmdBufferPos := 0\<rparr>))"

definition cmdStreamStart :: "engine \<Rightarrow> engine" where
  "cmdStreamStart s =
     (if \<not> stripInitialized s then sendError ERR_NOT_INITIALIZED s
      else case waitForBytes 2 1000 s of
        (False, s1) \<Rightarrow> s1
      | (True, s1) \<Rightarrow>
          (let (count, s2) = read16 s1
           in sendResponse RESP_OK
                (s2\<lparr>streamCount := count, streamIndex := 0, streamMode := True\<rparr>)))"

definition cmdStreamData :: "engine \<Rightarrow> engine" where
  "cmdStreamData s =
     (if \<not> stripInitialized s \<or> \<not> streamMode s then sendError ERR_NOT_INITIALIZED s
      else case waitForBytes 4 1000 s of
        (False, s1) \<Rightarrow> s1
      | (True, s1) \<Rightarrow>
          (let (color, s2) = readRGBW s1;
               color = applyBrightness s2 color
           in if streamIndex s2 < ledCount s2 \<and> streamIndex s2 < streamCount s2 then
                (let s3 = strip_set_rgbw (unat (streamIndex s2)) color s2
                 in sendResponse RESP_OK (s3\<lparr>streamIndex := streamIndex s3 + 1\<rparr>))
              else sendError ERR_OUT_OF_RANGE s2))"

definition cmdStreamEnd :: "engine \<Rightarrow> engine" where
  "cmdStreamEnd s =
     (if \<not> stripInitialized s then sendError ERR_NOT_INITIALIZED s
      else sendResponse RESP_OK
             ((strip_sync s)\<lparr>streamMode := False, streamIndex := 0, streamCount := 0\<rparr>))"

text \<open>
  The pixel loop of the bulk transfer, from counter \<open>i\<close> on. It returns \<open>False\<close> when a
  wait ran out (the handler then returns at once, the Timeout error already sent), and
  \<open>True\<close> when all \<open>count\<close> pixels were read. After each pixel the deadline is measured
  anew from the current time.
\<close>

function bulkLoop :: "nat \<Rightarrow> nat \<Rightarrow> nat \<Rightarrow> nat \<Rightarrow> engine \<Rightarrow> bool \<times> engine" where
  "bulkLoop i count timeout startTime s =
     (if i < count then
        (case waitLoop 4 startTime timeout s of
           (False, s1) \<Rightarrow> (False, s1)
         | (True, s1) \<Rightarrow>
             (let (color, s2) = readRGBW s1;
                  color = applyBrightness s2 color;
                  s3 = strip_set_rgbw i color s2
              in bulkLoop (Suc i) count timeout (millis s3) s3))
      else (True, s))"
  by pat_completeness auto
termination
  by (relation "measure (\<lambda>(i, count, timeout, startTime, s). count - i)") auto

declare bulkLoop.simps [simp del]

definition cmdBulkUpdate :: "engine \<Rightarrow> engine" where
  "cmdBulkUpdate s =
     (if \<not> stripInitialized s then sendError ERR_NOT_INITIALIZED s
      else case waitForBytes 2 1000 s of
        (False, s1) \<Rightarrow> s1
      | (True, s1) \<Rightarrow>
          (let (count, s2) = read16 s1
           in if count > ledCount s2 then sendError ERR_OUT_OF_RANGE s2
              else
                (let s3 = sendResponse RESP_OK s2;
                     timeout = 1000;
                     startTime = millis s3
                 in case bulkLoop 0 (unat count) timeout startTime s3 of
                      (False, s4) \<Rightarrow> s4
                    | (True, s4) \<Rightarrow> sendResponse RESP_OK (strip_sync s4))))"

text \<open>
  Modelled from the spec: \<^verbatim>\<open>map\<close> is the integer linear mapping of the Arduino core,
  which is not part of the sources at hand:
  \<^verbatim>\<open>(x - in_min) * (out_max - out_min) / (in_max - in_min) + out_min\<close> on \<^verbatim>\<open>long\<close>,
  the division truncating towards zero. The operands that reach it here are far from
  the limits of 32 bits, so it is computed on unbounded integers.
\<close>

definition map_long :: "int \<Rightarrow> int \<Rightarrow> int \<Rightarrow> int \<Rightarrow> int \<Rightarrow> int" where
  "map_long x in_min in_max out_min out_max =
     (x - in_min) * (out_max - out_min) sdiv (in_max - in_min) + out_min"

text \<open>One channel of the gradient: \<^verbatim>\<open>map(i, 0, steps, c1, c2)\<close> stored in a \<^verbatim>\<open>uint8_t\<close>.\<close>

definition lerp8 :: "nat \<Rightarrow> nat \<Rightarrow> u8 \<Rightarrow> u8 \<Rightarrow> u8" where
  "lerp8 i steps c1 c2 = word_of_int (map_long (int i) 0 (int steps) (uint c1) (uint c2))"

text \<open>The colour the gradient loop computes for counter \<open>i\<close>, before brightness.\<close>

definition gradientColor :: "nat \<Rightarrow> RGBW \<Rightarrow> RGBW \<Rightarrow> nat \<Rightarrow> RGBW" where
  "gradientColor steps color1 color2 i =
     (if steps > 0 then
        \<lparr>r = lerp8 i steps (r color1) (r color2),
         g = lerp8 i steps (g color1) (g color2),
         b = lerp8 i steps (b color1) (b color2),
         w = lerp8 i steps (w color1) (w color2)\<rparr>
      else color1)"

text \<open>The body of the gradient loop for counter \<open>i\<close>.\<close>

definition gradientStep :: "nat \<Rightarrow> nat \<Rightarrow> RGBW \<Rightarrow> RGBW \<Rightarrow> nat \<Rightarrow> engine \<Rightarrow> engine" where
  "gradientStep start steps color1 color2 i s =
     (let color = gradientColor steps color1 color2 i;
          color = applyBrightness s color
      in strip_set_rgbw (start + i) color s)"

definition cmdFillGradient :: "engine \<Rightarrow> engine" where
  "cmdFillGradient s =
     (if \<not> stripInitialized s then sendError ERR_NOT_INITIALIZED s
      else case waitForBytes 12 1000 s of
        (False, s1) \<Rightarrow> s1
      | (True, s1) \<Rightarrow>
          (let (start, s2) = read16 s1;
               (end, s3) = read16 s2;
               (color1, s4) = readRGBW s3;
               (color2, s5) = readRGBW s4
           in if start < ledCount s5 \<and> end < ledCount s5 \<and> start \<le> end then
                (let steps = end - start
                 in sendResponse RESP_OK
                      (strip_sync
                        (fold (gradientStep (unat start) (unat steps) color1 color2)
                           [0..<Suc (unat steps)] s5)))
              else sendError ERR_OUT_OF_RANGE s5))"

definition cmdSetBrightness :: "engine \<Rightarrow> engine" where
  "cmdSetBrightness s =
     (case waitForBytes 1 1000 s of
        (False, s1) \<Rightarrow> s1
      | (True, s1) \<Rightarrow>
          (let (x, s2) = read8 s1
           in sendResponse RESP_OK (s2\<lparr>globalBrightness := x\<rparr>)))"

section \<open>Dispatch, start-up and the main loop\<close>

definition processCommand :: "u8 \<Rightarrow> engine \<Rightarrow> engine" where
  "processCommand cmd s =
     (if cmd = CMD_PING then sendResponse RESP_PONG s
      else if cmd = CMD_GET_INFO then sendInfo s
      else if cmd = CMD_RESET then
        sendResponse RESP_OK
          ((initializeStrip DEFAULT_LED_COUNT DEFAULT_LED_PIN s)\<lparr>globalBrightness := 255\<rparr>)
      else if cmd = CMD_SET_LED_COUNT then cmdSetLedCount s
      else if cmd = CMD_SET_LED_PIN then cmdSetLedPin s
      else if cmd = CMD_INIT_STRIP then
        sendResponse RESP_OK (initializeStrip (ledCount s) (ledPin s) s)
      else if cmd = CMD_SET_PIXEL_RGBW then cmdSetPixelRGBW s
      else if cmd = CMD_SET_PIXEL_RGB then cmdSetPixelRGB s
      else if cmd = CMD_SET_PIXEL_W then cmdSetPixelW s
      else if cmd = CMD_SET_RANGE_RGBW then cmdSetRangeRGBW s
      else if cmd = CMD_SET_ALL_RGBW then cmdSetAllRGBW s
      else if cmd = CMD_CLEAR_ALL then cmdClearAll s
      else if cmd = CMD_BUFFER_START then cmdBufferStart s
      else if cmd = CMD_BUFFER_PIXEL then cmdBufferPixel s
      else if cmd = CMD_BUFFER_END then cmdBufferEnd s
      else if cmd = CMD_STREAM_START then cmdStreamStart s
      else if cmd = CMD_STREAM_DATA then cmdStreamData s
      else if cmd = CMD_STREAM_END then cmdStreamEnd s
      else if cmd = CMD_BULK_UPDATE then cmdBulkUpdate s
      else if cmd = CMD_SYNC then
        (if stripInitialized s then sendResponse RESP_OK (strip_sync s)
         else sendError ERR_NOT_INITIALIZED s)
      else if cmd = CMD_FILL_GRADIENT then cmdFillGradient s
      else if cmd = CMD_BRIGHTNESS then cmdSetBrightness s
      else sendResponse RESP_UNKNOWN_CMD s)"

text \<open>
  The globals as their initialisers leave them, before \<^verbatim>\<open>setup()\<close> runs, for a given
  content of fresh memory and a given future of the serial line.
\<close>

definition power_on :: "RGBW \<Rightarrow> (nat \<times> u8) list \<Rightarrow> engine" where
  "power_on fill line =
     \<lparr>ledStrip = None, ledCount = DEFAULT_LED_COUNT, ledPin = DEFAULT_LED_PIN,
      stripInitialized = False, globalBrightness = 255, cmdBufferPos = 0,
      streamMode = False, streamIndex = 0, streamCount = 0,
      rx = line, tx = [], clock = 0, frames = [], junk = fill, fault = False\<rparr>"

definition flashOnce :: "engine \<Rightarrow> engine" where
  "flashOnce s =
     (let flash = \<lparr>r = 0, g = 0, b = 0, w = 50\<rparr>;
          s1 = strip_set_rgbw 0 flash s;
          s2 = strip_sync s1;
          s3 = delay 50 s2;
          s4 = strip_set_rgbw 0 off s3;
          s5 = strip_sync s4
      in delay 50 s5)"

definition setup_board :: "engine \<Rightarrow> engine" where
  "setup_board s =
     (let s1 = initializeStrip (ledCount s) (ledPin s) s
      in if stripInitialized s1 then fold (\<lambda>i. flashOnce) [0..<3::nat] s1 else s1)"

definition loop :: "engine \<Rightarrow> engine" where
  "loop s =
     (if Serial_available s > 0 then
        (let (cmd, s1) = read8 s in processCommand cmd s1)
      else s)"

section \<open>Notions for stating the properties\<close>

text \<open>The time by which all of the given bytes have arrived.\<close>

definition latest :: "(nat \<times> u8) list \<Rightarrow> nat" where
  "latest ps = foldr max (map fst ps) 0"

text \<open>The line delivers at least \<open>n\<close> more bytes, the \<open>n\<close>-th of them by \<open>deadline\<close>.\<close>

definition ready :: "nat \<Rightarrow> nat \<Rightarrow> engine \<Rightarrow> bool" where
  "ready n deadline s \<longleftrightarrow> n \<le> length (rx s) \<and> latest (take n (rx s)) \<le> deadline"

text \<open>The next \<open>n\<close> bytes of the line.\<close>

definition payload :: "nat \<Rightarrow> engine \<Rightarrow> u8 list" where
  "payload n s = map snd (take n (rx s))"

text \<open>The state once the engine has waited for the next \<open>n\<close> bytes and read them.\<close>

definition consume :: "nat \<Rightarrow> engine \<Rightarrow> engine" where
  "consume n s = s\<lparr>clock := max (clock s) (latest (take n (rx s))), rx := drop n (rx s)\<rparr>"

text \<open>The state once the engine has waited for the next \<open>n\<close> bytes and read \<open>k\<close> of them.\<close>

definition fetched :: "nat \<Rightarrow> nat \<Rightarrow> engine \<Rightarrow> engine" where
  "fetched k n s = s\<lparr>clock := max (clock s) (latest (take n (rx s))), rx := drop k (rx s)\<rparr>"

text \<open>
  The gradient as the specification words it, for one channel: the value
  \<open>A + (B - A) * i / n\<close> over the integers, the division truncating towards zero.
\<close>

definition spec_gradient :: "u8 \<Rightarrow> u8 \<Rightarrow> nat \<Rightarrow> nat \<Rightarrow> int" where
  "spec_gradient A B i n = uint A + ((uint B - uint A) * int i) sdiv int n"

text \<open>
  A bulk payload that keeps flowing: each of the next \<open>k\<close> quadruples of the line is
  complete within \<open>timeout\<close> milliseconds of the moment the one before it was complete
  (the first: of \<open>start\<close>).
\<close>

fun paced :: "nat \<Rightarrow> nat \<Rightarrow> nat \<Rightarrow> (nat \<times> u8) list \<Rightarrow> bool" where
  "paced 0 timeout start line = True"
| "paced (Suc k) timeout start line =
     (4 \<le> length line \<and> latest (take 4 line) \<le> start + timeout
      \<and> paced k timeout (max start (latest (take 4 line))) (drop 4 line))"

text \<open>The moment the \<open>k\<close>-th quadruple of such a payload is complete.\<close>

fun finish :: "nat \<Rightarrow> nat \<Rightarrow> (nat \<times> u8) list \<Rightarrow> nat" where
  "finish 0 start line = start"
| "finish (Suc k) start line = finish k (max start (latest (take 4 line))) (drop 4 line)"

text \<open>The next \<open>k\<close> quadruples of the line, read as colours.\<close>

fun colours :: "nat \<Rightarrow> (nat \<times> u8) list \<Rightarrow> RGBW list" where
  "colours 0 line = []"
| "colours (Suc k) line =
     \<lparr>r = snd (line ! 0), g = snd (line ! 1), b = snd (line ! 2), w = snd (line ! 3)\<rparr>
       # colours k (drop 4 line)"

text \<open>A pixel list after the colours \<open>cs\<close> were written at the indices \<open>i\<close>, \<open>i + 1\<close>, ...\<close>

fun store_colours :: "nat \<Rightarrow> RGBW list \<Rightarrow> RGBW list \<Rightarrow> RGBW list" where
  "store_colours i [] ps = ps"
| "store_colours i (c # cs) ps = store_colours (Suc i) cs (ps[i := c])"

text \<open>Two bytes as a big-endian 16-bit value.\<close>

definition word16 :: "u8 \<Rightarrow> u8 \<Rightarrow> u16" where
  "word16 hi lo = push_bit 8 (ucast hi) OR ucast lo"

text \<open>The next \<open>n\<close> bytes have arrived: they can be read without waiting.\<close>

definition readable :: "nat \<Rightarrow> engine \<Rightarrow> bool" where
  "readable n s \<longleftrightarrow> ready n (clock s) s"

text \<open>The bytes \<open>bs\<close> are the next ones of the line and have arrived.\<close>

definition buffered :: "u8 list \<Rightarrow> engine \<Rightarrow> bool" where
  "buffered bs s \<longleftrightarrow> readable (length bs) s \<and> payload (length bs) s = bs"

text \<open>
  The engine after power-on and \<^verbatim>\<open>setup()\<close>, fresh memory being all zero, with a
  given future of the serial line.
\<close>

definition booted :: "(nat \<times> u8) list \<Rightarrow> engine" where
  "booted line = setup_board (power_on off line)"

text \<open>The Arduino runtime calls \<^verbatim>\<open>loop()\<close> again and again; \<open>run n\<close> is \<open>n\<close> such calls.\<close>

fun run :: "nat \<Rightarrow> engine \<Rightarrow> engine" where
  "run 0 s = s"
| "run (Suc n) s = run n (loop s)"

text \<open>
  The engine at work: between two calls of \<^verbatim>\<open>loop()\<close> any amount of time may pass.
  \<open>running ts\<close> lets \<open>t\<close> milliseconds pass and then calls \<^verbatim>\<open>loop()\<close>, for each \<open>t\<close> of
  \<open>ts\<close> in turn. With \<open>setup_board (power_on fill line)\<close> as the start, for every content
  \<open>fill\<close> of fresh memory and every future \<open>line\<close> of the serial line, these are the states
  the firmware can be in when \<^verbatim>\<open>loop()\<close> returns.
\<close>

fun running :: "nat list \<Rightarrow> engine \<Rightarrow> engine" where
  "running [] s = s"
| "running (t # ts) s = running ts (loop (delay t s))"

text \<open>A colour as it travels on the line.\<close>

definition wire :: "RGBW \<Rightarrow> u8 list" where
  "wire c = [r c, g c, b c, w c]"

text \<open>Bytes that are all in the receive buffer from the start.\<close>

definition at_once :: "u8 list \<Rightarrow> (nat \<times> u8) list" where
  "at_once bs = map (Pair 0) bs"

text \<open>The stream session: active flag, cursor and expected count.\<close>

definition session :: "engine \<Rightarrow> bool \<times> u16 \<times> u16" where
  "session s = (streamMode s, streamIndex s, streamCount s)"

text \<open>The commands whose handlers start with the check of \<^verbatim>\<open>stripInitialized\<close>.\<close>

definition guarded :: "u8 list" where
  "guarded =
     [CMD_SET_PIXEL_RGBW, CMD_SET_PIXEL_RGB, CMD_SET_PIXEL_W, CMD_SET_RANGE_RGBW,
      CMD_SET_ALL_RGBW, CMD_CLEAR_ALL, CMD_BUFFER_PIXEL, CMD_BUFFER_END, CMD_STREAM_START,
      CMD_STREAM_DATA, CMD_STREAM_END, CMD_BULK_UPDATE, CMD_SYNC, CMD_FILL_GRADIENT]"

section \<open>Waiting for and reading bytes\<close>

lemma le_length_takeWhile:
  "n \<le> length (takeWhile P xs) \<longleftrightarrow> n \<le> length xs \<and> (\<forall>x\<in>set (take n xs). P x)"
proof (induction xs arbitrary: n)
  case Nil
  then show ?case by simp
next
  case (Cons x xs)
  then show ?case by (cases n) auto
qed

lemma latest_le: "latest ps \<le> c \<longleftrightarrow> (\<forall>p\<in>set ps. fst p \<le> c)"
  by (induction ps) (auto simp: latest_def)

lemma available_ge: "n \<le> Serial_available s \<longleftrightarrow> ready n (clock s) s"
  by (simp add: Serial_available_def ready_def le_length_takeWhile latest_le)

lemma waitLoop_ready:
  "ready n (startTime + timeout) s \<Longrightarrow>
   waitLoop n startTime timeout s = (True, s\<lparr>clock := max (clock s) (latest (take n (rx s)))\<rparr>)"
proof (induction n startTime timeout s rule: waitLoop.induct)
  case (1 count startTime timeout s)
  show ?case
  proof (cases "Serial_available s < count")
    case False
    then have "ready count (clock s) s" by (simp add: available_ge [symmetric])
    then have "max (clock s) (latest (take count (rx s))) = clock s"
      by (simp add: ready_def max_def)
    with False show ?thesis by (subst waitLoop.simps) simp
  next
    case True
    then have nr: "\<not> ready count (clock s) s" by (simp add: available_ge [symmetric])
    with "1.prems" have lt: "clock s < latest (take count (rx s))" "clock s < startTime + timeout"
      by (auto simp: ready_def)
    then have nt: "\<not> millis s - startTime > timeout" by (simp add: millis_def)
    have "ready count (startTime + timeout) (delay 1 s)"
      using "1.prems" by (simp add: ready_def delay_def)
    from "1.IH" [OF True nt this] lt True nt show ?thesis
      by (subst waitLoop.simps) (simp add: delay_def max_def)
  qed
qed

lemma waitForBytes_ready:
  "ready n (clock s + timeout) s \<Longrightarrow>
   waitForBytes n timeout s = (True, s\<lparr>clock := max (clock s) (latest (take n (rx s)))\<rparr>)"
  by (simp add: waitForBytes_def millis_def waitLoop_ready)

lemma readable_waited:
  "n \<le> length (rx s) \<Longrightarrow> readable n (s\<lparr>clock := max (clock s) (latest (take n (rx s)))\<rparr>)"
  by (simp add: readable_def ready_def)

lemma readable_drop:
  assumes "readable n s" "m \<le> n"
  shows "readable (n - m) (s\<lparr>rx := drop m (rx s)\<rparr>)"
proof -
  have "set (take (n - m) (drop m (rx s))) \<subseteq> set (take n (rx s))"
  proof
    fix p assume "p \<in> set (take (n - m) (drop m (rx s)))"
    then have "p \<in> set (drop m (take n (rx s)))"
      using assms(2) by (simp add: drop_take)
    then show "p \<in> set (take n (rx s))" by (rule in_set_dropD)
  qed
  then show ?thesis
    using assms by (auto simp: readable_def ready_def latest_le)
qed

lemma Serial_read_readable:
  "readable n s \<Longrightarrow> 0 < n \<Longrightarrow>
   Serial_read s = (ucast (snd (rx s ! 0)), s\<lparr>rx := drop 1 (rx s)\<rparr>)"
  by (cases "rx s"; cases n) (auto simp: Serial_read_def readable_def ready_def latest_le)

lemma ucast_ucast_u8: "(ucast (ucast (x :: u8) :: u16) :: u8) = x"
  by (rule bit_word_eqI) (auto simp: bit_simps)

lemma read8_readable:
  "readable n s \<Longrightarrow> 0 < n \<Longrightarrow> read8 s = (snd (rx s ! 0), s\<lparr>rx := drop 1 (rx s)\<rparr>)"
  by (simp add: read8_def Serial_read_readable ucast_ucast_u8)

lemma read8_drop:
  assumes "readable n s" "k < n"
  shows "read8 (s\<lparr>rx := drop k (rx s)\<rparr>) = (snd (rx s ! k), s\<lparr>rx := drop (Suc k) (rx s)\<rparr>)"
proof -
  have len: "n \<le> length (rx s)" using assms by (simp add: readable_def ready_def)
  have "readable (n - k) (s\<lparr>rx := drop k (rx s)\<rparr>)" "0 < n - k"
    using readable_drop [of n s k] assms by simp_all
  from read8_readable [OF this] len assms(2) show ?thesis by simp
qed

lemma Serial_read_drop:
  assumes "readable n s" "k < n"
  shows "Serial_read (s\<lparr>rx := drop k (rx s)\<rparr>) =
    (ucast (snd (rx s ! k)), s\<lparr>rx := drop (Suc k) (rx s)\<rparr>)"
proof -
  have len: "n \<le> length (rx s)" using assms by (simp add: readable_def ready_def)
  have "readable (n - k) (s\<lparr>rx := drop k (rx s)\<rparr>)" "0 < n - k"
    using readable_drop [of n s k] assms by simp_all
  from Serial_read_readable [OF this] len assms(2) show ?thesis by simp
qed

lemma read16_drop:
  assumes "readable n s" "Suc k < n"
  shows "read16 (s\<lparr>rx := drop k (rx s)\<rparr>) =
    (word16 (snd (rx s ! k)) (snd (rx s ! Suc k)), s\<lparr>rx := drop (Suc (Suc k)) (rx s)\<rparr>)"
proof -
  have "k < n" using assms by simp
  from Serial_read_drop [OF assms(1) this] Serial_read_drop [OF assms]
  show ?thesis by (simp add: read16_def word16_def)
qed

lemma readRGBW_drop:
  assumes "readable n s" "k + 3 < n"
  shows "readRGBW (s\<lparr>rx := drop k (rx s)\<rparr>) =
    (\<lparr>r = snd (rx s ! k), g = snd (rx s ! (k + 1)), b = snd (rx s ! (k + 2)),
      w = snd (rx s ! (k + 3))\<rparr>,
     s\<lparr>rx := drop (k + 4) (rx s)\<rparr>)"
proof -
  have "k < n" "Suc k < n" "Suc (Suc k) < n" "Suc (Suc (Suc k)) < n" using assms by simp_all
  from this [THEN read8_drop [OF assms(1)]]
  show ?thesis by (simp add: readRGBW_def eval_nat_numeral)
qed


lemma read8_readable0:
  "readable n s \<Longrightarrow> 0 < n \<Longrightarrow> read8 s = (snd (rx s ! 0), s\<lparr>rx := drop 1 (rx s)\<rparr>)"
  using read8_drop [of n s 0] by simp

lemma read16_readable:
  "readable n s \<Longrightarrow> 1 < n \<Longrightarrow>
   read16 s = (word16 (snd (rx s ! 0)) (snd (rx s ! 1)), s\<lparr>rx := drop 2 (rx s)\<rparr>)"
  using read16_drop [of n s 0] by (simp add: eval_nat_numeral)

lemma readRGBW_readable:
  "readable n s \<Longrightarrow> 3 < n \<Longrightarrow>
   readRGBW s =
     (\<lparr>r = snd (rx s ! 0), g = snd (rx s ! 1), b = snd (rx s ! 2), w = snd (rx s ! 3)\<rparr>,
      s\<lparr>rx := drop 4 (rx s)\<rparr>)"
  using readRGBW_drop [of n s 0] by (simp add: eval_nat_numeral)

lemma payload_nth: "k < n \<Longrightarrow> n \<le> length (rx s) \<Longrightarrow> payload n s ! k = snd (rx s ! k)"
  by (simp add: payload_def)

lemma applyBrightness_consume [simp]: "applyBrightness (consume n s) = applyBrightness s"
  by (rule ext) (simp add: applyBrightness_def consume_def)

lemma waitForBytes_readable:
  assumes "ready n (clock s + timeout) s"
  shows "waitForBytes n timeout s = (True, s\<lparr>clock := max (clock s) (latest (take n (rx s)))\<rparr>)"
    and "readable n (s\<lparr>clock := max (clock s) (latest (take n (rx s)))\<rparr>)"
  using assms by (simp_all add: waitForBytes_ready readable_waited ready_def)


lemma consume_fields [simp]:
  "ledStrip (consume n s) = ledStrip s" "ledCount (consume n s) = ledCount s"
  "ledPin (consume n s) = ledPin s" "stripInitialized (consume n s) = stripInitialized s"
  "globalBrightness (consume n s) = globalBrightness s"
  "cmdBufferPos (consume n s) = cmdBufferPos s" "streamMode (consume n s) = streamMode s"
  "streamIndex (consume n s) = streamIndex s" "streamCount (consume n s) = streamCount s"
  "tx (consume n s) = tx s" "frames (consume n s) = frames s" "junk (consume n s) = junk s"
  "fault (consume n s) = fault s" "rx (consume n s) = drop n (rx s)"
  "clock (consume n s) = max (clock s) (latest (take n (rx s)))"
  by (simp_all add: consume_def)

section \<open>Arithmetic of the brightness scale\<close>

lemma ucast_sdrop: "(ucast (signed_drop_bit 8 (x :: u16)) :: u8) = ucast (drop_bit 8 x)"
  by (rule bit_word_eqI) (auto simp: bit_simps)

lemma unat_ucast_8_16: "unat (ucast (v :: u8) :: u16) = unat v"
  by (simp add: unsigned_ucast_eq take_bit_nat_eq_self less_trans [OF unsigned_less])

lemma unat_prod_u8: "unat ((ucast (v :: u8) :: u16) * ucast (bri :: u8)) = unat v * unat bri"
proof -
  have "unat v < 256" "unat bri < 256"
    using unsigned_less [of v] unsigned_less [of bri] by simp_all
  then have "unat v * unat bri \<le> 255 * 255" by (intro mult_mono) auto
  then have "unat (ucast v :: u16) * unat (ucast bri :: u16) < 2 ^ LENGTH(16)"
    by (simp add: unat_ucast_8_16)
  then show ?thesis
    by (simp add: unat_mult_lem [THEN iffD1] unat_ucast_8_16)
qed

lemma unat_scale8: "unat (scale8 bri v) = unat v * unat bri div 256"
proof -
  have "unat v < 256" "unat bri < 256"
    using unsigned_less [of v] unsigned_less [of bri] by simp_all
  then have "unat v * unat bri \<le> 255 * 255" by (intro mult_mono) auto
  then have small: "unat v * unat bri div 256 < 256" by simp
  have "unat (scale8 bri v) = unat (drop_bit 8 ((ucast v :: u16) * ucast bri)) mod 256"
    unfolding scale8_def ucast_sdrop by (simp add: unsigned_ucast_eq take_bit_eq_mod)
  also have "\<dots> = (unat v * unat bri div 256) mod 256"
    by (simp add: unat_drop_bit_eq drop_bit_eq_div unat_div unat_prod_u8)
  finally show ?thesis using small by simp
qed

lemma u8_less_255: "(x :: u8) < 255 \<longleftrightarrow> x \<noteq> 255"
proof -
  have "unat x < 256" using unsigned_less [of x] by simp
  then show ?thesis
    by (auto simp: word_less_nat_alt word_eq_iff_unsigned [where ?'a = nat])
qed

subsection \<open>What each primitive leaves alone\<close>

lemma Serial_write_fields [simp]:
  "ledStrip (Serial_write x s) = ledStrip s" "ledCount (Serial_write x s) = ledCount s"
  "ledPin (Serial_write x s) = ledPin s"
  "stripInitialized (Serial_write x s) = stripInitialized s"
  "globalBrightness (Serial_write x s) = globalBrightness s"
  "cmdBufferPos (Serial_write x s) = cmdBufferPos s"
  "streamMode (Serial_write x s) = streamMode s" "streamIndex (Serial_write x s) = streamIndex s"
  "streamCount (Serial_write x s) = streamCount s" "rx (Serial_write x s) = rx s"
  "clock (Serial_write x s) = clock s" "frames (Serial_write x s) = frames s"
  "junk (Serial_write x s) = junk s" "fault (Serial_write x s) = fault s"
  "tx (Serial_write x s) = tx s @ [x]"
  by (simp_all add: Serial_write_def)

lemma sendResponse_fields [simp]:
  "ledStrip (sendResponse x s) = ledStrip s" "ledCount (sendResponse x s) = ledCount s"
  "ledPin (sendResponse x s) = ledPin s"
  "stripInitialized (sendResponse x s) = stripInitialized s"
  "globalBrightness (sendResponse x s) = globalBrightness s"
  "cmdBufferPos (sendResponse x s) = cmdBufferPos s"
  "streamMode (sendResponse x s) = streamMode s" "streamIndex (sendResponse x s) = streamIndex s"
  "streamCount (sendResponse x s) = streamCount s" "rx (sendResponse x s) = rx s"
  "clock (sendResponse x s) = clock s" "frames (sendResponse x s) = frames s"
  "junk (sendResponse x s) = junk s" "fault (sendResponse x s) = fault s"
  "tx (sendResponse x s) = tx s @ [x]"
  by (simp_all add: sendResponse_def)

lemma sendError_fields [simp]:
  "ledStrip (sendError x s) = ledStrip s" "ledCount (sendError x s) = ledCount s"
  "ledPin (sendError x s) = ledPin s"
  "stripInitialized (sendError x s) = stripInitialized s"
  "globalBrightness (sendError x s) = globalBrightness s"
  "cmdBufferPos (sendError x s) = cmdBufferPos s"
  "streamMode (sendError x s) = streamMode s" "streamIndex (sendError x s) = streamIndex s"
  "streamCount (sendError x s) = streamCount s" "rx (sendError x s) = rx s"
  "clock (sendError x s) = clock s" "frames (sendError x s) = frames s"
  "junk (sendError x s) = junk s" "fault (sendError x s) = fault s"
  "tx (sendError x s) = tx s @ [RESP_ERROR, x]"
  by (simp_all add: sendError_def)

lemma waitLoop_frame:
  "(snd (waitLoop n st to s))\<lparr>clock := 0, tx := []\<rparr> = s\<lparr>clock := 0, tx := []\<rparr>"
proof (induction n st to s rule: waitLoop.induct)
  case (1 count startTime timeout s)
  then show ?case
    by (subst waitLoop.simps) (simp add: sendError_def Serial_write_def delay_def)
qed

lemmas waitLoop_keeps [simp] =
  waitLoop_frame [THEN arg_cong [where f = ledStrip], simplified]
  waitLoop_frame [THEN arg_cong [where f = ledCount], simplified]
  waitLoop_frame [THEN arg_cong [where f = ledPin], simplified]
  waitLoop_frame [THEN arg_cong [where f = stripInitialized], simplified]
  waitLoop_frame [THEN arg_cong [where f = globalBrightness], simplified]
  waitLoop_frame [THEN arg_cong [where f = cmdBufferPos], simplified]
  waitLoop_frame [THEN arg_cong [where f = streamMode], simplified]
  waitLoop_frame [THEN arg_cong [where f = streamIndex], simplified]
  waitLoop_frame [THEN arg_cong [where f = streamCount], simplified]
  waitLoop_frame [THEN arg_cong [where f = rx], simplified]
  waitLoop_frame [THEN arg_cong [where f = frames], simplified]
  waitLoop_frame [THEN arg_cong [where f = junk], simplified]
  waitLoop_frame [THEN arg_cong [where f = fault], simplified]

lemma waitForBytes_frame:
  "(snd (waitForBytes n to s))\<lparr>clock := 0, tx := []\<rparr> = s\<lparr>clock := 0, tx := []\<rparr>"
  by (simp add: waitForBytes_def waitLoop_frame)

lemmas waitForBytes_keeps [simp] =
  waitForBytes_frame [THEN arg_cong [where f = ledStrip], simplified]
  waitForBytes_frame [THEN arg_cong [where f = ledCount], simplified]
  waitForBytes_frame [THEN arg_cong [where f = ledPin], simplified]
  waitForBytes_frame [THEN arg_cong [where f = stripInitialized], simplified]
  waitForBytes_frame [THEN arg_cong [where f = globalBrightness], simplified]
  waitForBytes_frame [THEN arg_cong [where f = cmdBufferPos], simplified]
  waitForBytes_frame [THEN arg_cong [where f = streamMode], simplified]
  waitForBytes_frame [THEN arg_cong [where f = streamIndex], simplified]
  waitForBytes_frame [THEN arg_cong [where f = streamCount], simplified]
  waitForBytes_frame [THEN arg_cong [where f = rx], simplified]
  waitForBytes_frame [THEN arg_cong [where f = frames], simplified]
  waitForBytes_frame [THEN arg_cong [where f = junk], simplified]
  waitForBytes_frame [THEN arg_cong [where f = fault], simplified]

lemma Serial_read_frame: "(snd (Serial_read s))\<lparr>rx := []\<rparr> = s\<lparr>rx := []\<rparr>"
  by (simp add: Serial_read_def split: list.splits)

lemmas Serial_read_keeps [simp] =
  Serial_read_frame [THEN arg_cong [where f = ledStrip], simplified]
  Serial_read_frame [THEN arg_cong [where f = ledCount], simplified]
  Serial_read_frame [THEN arg_cong [where f = ledPin], simplified]
  Serial_read_frame [THEN arg_cong [where f = stripInitialized], simplified]
  Serial_read_frame [THEN arg_cong [where f = globalBrightness], simplified]
  Serial_read_frame [THEN arg_cong [where f = cmdBufferPos], simplified]
  Serial_read_frame [THEN arg_cong [where f = streamMode], simplified]
  Serial_read_frame [THEN arg_cong [where f = streamIndex], simplified]
  Serial_read_frame [THEN arg_cong [where f = streamCount], simplified]
  Serial_read_frame [THEN arg_cong [where f = tx], simplified]
  Serial_read_frame [THEN arg_cong [where f = clock], simplified]
  Serial_read_frame [THEN arg_cong [where f = frames], simplified]
  Serial_read_frame [THEN arg_cong [where f = junk], simplified]
  Serial_read_frame [THEN arg_cong [where f = fault], simplified]

lemma read8_frame: "(snd (read8 s))\<lparr>rx := []\<rparr> = s\<lparr>rx := []\<rparr>"
  by (simp add: read8_def split_def Let_def Serial_read_frame)

lemmas read8_keeps [simp] =
  read8_frame [THEN arg_cong [where f = ledStrip], simplified]
  read8_frame [THEN arg_cong [where f = ledCount], simplified]
  read8_frame [THEN arg_cong [where f = ledPin], simplified]
  read8_frame [THEN arg_cong [where f = stripInitialized], simplified]
  read8_frame [THEN arg_cong [where f = globalBrightness], simplified]
  read8_frame [THEN arg_cong [where f = cmdBufferPos], simplified]
  read8_frame [THEN arg_cong [where f = streamMode], simplified]
  read8_frame [THEN arg_cong [where f = streamIndex], simplified]
  read8_frame [THEN arg_cong [where f = streamCount], simplified]
  read8_frame [THEN arg_cong [where f = tx], simplified]
  read8_frame [THEN arg_cong [where f = clock], simplified]
  read8_frame [THEN arg_cong [where f = frames], simplified]
  read8_frame [THEN arg_cong [where f = junk], simplified]
  read8_frame [THEN arg_cong [where f = fault], simplified]

lemma read16_frame: "(snd (read16 s))\<lparr>rx := []\<rparr> = s\<lparr>rx := []\<rparr>"
  using Serial_read_frame [of "snd (Serial_read s)"]
  by (simp add: read16_def split_def Let_def Serial_read_frame)

lemmas read16_keeps [simp] =
  read16_frame [THEN arg_cong [where f = ledStrip], simplified]
  read16_frame [THEN arg_cong [where f = ledCount], simplified]
  read16_frame [THEN arg_cong [where f = ledPin], simplified]
  read16_frame [THEN arg_cong [where f = stripInitialized], simplified]
  read16_frame [THEN arg_cong [where f = globalBrightness], simplified]
  read16_frame [THEN arg_cong [where f = cmdBufferPos], simplified]
  read16_frame [THEN arg_cong [where f = streamMode], simplified]
  read16_frame [THEN arg_cong [where f = streamIndex], simplified]
  read16_frame [THEN arg_cong [where f = streamCount], simplified]
  read16_frame [THEN arg_cong [where f = tx], simplified]
  read16_frame [THEN arg_cong [where f = clock], simplified]
  read16_frame [THEN arg_cong [where f = frames], simplified]
  read16_frame [THEN arg_cong [where f = junk], simplified]
  read16_frame [THEN arg_cong [where f = fault], simplified]

lemma readRGBW_frame: "(snd (readRGBW s))\<lparr>rx := []\<rparr> = s\<lparr>rx := []\<rparr>"
  using read8_frame [of "snd (read8 (snd (read8 (snd (read8 s)))))"]
    read8_frame [of "snd (read8 (snd (read8 s)))"] read8_frame [of "snd (read8 s)"]
  by (simp add: readRGBW_def split_def Let_def read8_frame)

lemmas readRGBW_keeps [simp] =
  readRGBW_frame [THEN arg_cong [where f = ledStrip], simplified]
  readRGBW_frame [THEN arg_cong [where f = ledCount], simplified]
  readRGBW_frame [THEN arg_cong [where f = ledPin], simplified]
  readRGBW_frame [THEN arg_cong [where f = stripInitialized], simplified]
  readRGBW_frame [THEN arg_cong [where f = globalBrightness], simplified]
  readRGBW_frame [THEN arg_cong [where f = cmdBufferPos], simplified]
  readRGBW_frame [THEN arg_cong [where f = streamMode], simplified]
  readRGBW_frame [THEN arg_cong [where f = streamIndex], simplified]
  readRGBW_frame [THEN arg_cong [where f = streamCount], simplified]
  readRGBW_frame [THEN arg_cong [where f = tx], simplified]
  readRGBW_frame [THEN arg_cong [where f = clock], simplified]
  readRGBW_frame [THEN arg_cong [where f = frames], simplified]
  readRGBW_frame [THEN arg_cong [where f = junk], simplified]
  readRGBW_frame [THEN arg_cong [where f = fault], simplified]

lemma strip_set_rgbw_fields [simp]:
  "ledCount (strip_set_rgbw i c s) = ledCount s" "ledPin (strip_set_rgbw i c s) = ledPin s"
  "stripInitialized (strip_set_rgbw i c s) = stripInitialized s"
  "globalBrightness (strip_set_rgbw i c s) = globalBrightness s"
  "cmdBufferPos (strip_set_rgbw i c s) = cmdBufferPos s"
  "streamMode (strip_set_rgbw i c s) = streamMode s"
  "streamIndex (strip_set_rgbw i c s) = streamIndex s"
  "streamCount (strip_set_rgbw i c s) = streamCount s" "rx (strip_set_rgbw i c s) = rx s"
  "tx (strip_set_rgbw i c s) = tx s" "clock (strip_set_rgbw i c s) = clock s"
  "frames (strip_set_rgbw i c s) = frames s" "junk (strip_set_rgbw i c s) = junk s"
  by (simp_all add: strip_set_rgbw_def split: option.splits)

lemma strip_sync_fields [simp]:
  "ledStrip (strip_sync s) = ledStrip s"
  "ledCount (strip_sync s) = ledCount s" "ledPin (strip_sync s) = ledPin s"
  "stripInitialized (strip_sync s) = stripInitialized s"
  "globalBrightness (strip_sync s) = globalBrightness s"
  "cmdBufferPos (strip_sync s) = cmdBufferPos s"
  "streamMode (strip_sync s) = streamMode s"
  "streamIndex (strip_sync s) = streamIndex s"
  "streamCount (strip_sync s) = streamCount s" "rx (strip_sync s) = rx s"
  "tx (strip_sync s) = tx s" "clock (strip_sync s) = clock s"
  "junk (strip_sync s) = junk s"
  by (simp_all add: strip_sync_def split: option.splits)

section \<open>Writing into the strip\<close>

lemma set_rgbw_eq: "set_rgbw i c st = st\<lparr>pixels := (pixels st)[i := c]\<rparr>"
  by (simp add: set_rgbw_def list_update_beyond not_less)

lemma strip_set_rgbw_Some:
  "ledStrip s = Some st \<Longrightarrow>
   strip_set_rgbw i c s = s\<lparr>ledStrip := Some (st\<lparr>pixels := (pixels st)[i := c]\<rparr>)\<rparr>"
  by (simp add: strip_set_rgbw_def set_rgbw_eq)

lemma strip_sync_Some:
  "ledStrip s = Some st \<Longrightarrow> strip_sync s = s\<lparr>frames := frames s @ [pixels st]\<rparr>"
  by (simp add: strip_sync_def)

lemma fold_strip_set_rgbw:
  "ledStrip s = Some st \<Longrightarrow>
   fold (\<lambda>i. strip_set_rgbw (idx i) (f i)) js s =
     s\<lparr>ledStrip := Some (st\<lparr>pixels := fold (\<lambda>i ps. ps[idx i := f i]) js (pixels st)\<rparr>)\<rparr>"
proof (induction js arbitrary: s st)
  case Nil
  then show ?case by simp
next
  case (Cons j js)
  let ?st = "st\<lparr>pixels := (pixels st)[idx j := f j]\<rparr>"
  have "ledStrip (strip_set_rgbw (idx j) (f j) s) = Some ?st"
    using Cons.prems by (simp add: strip_set_rgbw_Some)
  from Cons.IH [OF this] Cons.prems show ?case
    by (simp add: strip_set_rgbw_Some)
qed

lemma length_fold_update [simp]:
  "length (fold (\<lambda>i ps. ps[idx i := f i]) js ps) = length ps"
  by (induction js arbitrary: ps) simp_all

lemma nth_fold_update_upt:
  "k < length ps \<Longrightarrow>
   fold (\<lambda>i ps. ps[i := f i]) [a..<n] ps ! k = (if a \<le> k \<and> k < n then f k else ps ! k)"
proof (induction n)
  case 0
  then show ?case by simp
next
  case (Suc n)
  show ?case
  proof (cases "a \<le> n")
    case True
    with Suc show ?thesis by (auto simp: nth_list_update less_Suc_eq)
  next
    case False
    with Suc.prems show ?thesis by auto
  qed
qed

lemma nth_fold_update_shift:
  "k < length ps \<Longrightarrow>
   fold (\<lambda>i ps. ps[a + i := f i]) [0..<n] ps ! k =
     (if a \<le> k \<and> k < a + n then f (k - a) else ps ! k)"
proof (induction n)
  case 0
  then show ?case by auto
next
  case (Suc n)
  then show ?case by (auto simp: nth_list_update less_Suc_eq)
qed

lemma fold_update_replicate:
  "length ps = n \<Longrightarrow> fold (\<lambda>i ps. ps[i := c]) [0..<n] ps = replicate n c"
  by (rule nth_equalityI) (simp_all add: nth_fold_update_upt)

lemma initializeStrip_eq:
  "initializeStrip count pin s =
     s\<lparr>ledStrip := Some \<lparr>pixels = replicate (unat count) off, out_pin = pin\<rparr>,
       ledCount := count, ledPin := pin,
       frames := frames s @ [replicate (unat count) off], stripInitialized := True\<rparr>"
proof -
  let ?st = "set_output pin (SK6812_new (junk s) count)"
  let ?s4 = "s\<lparr>ledStrip := None, ledCount := count, ledPin := pin, ledStrip := Some ?st\<rparr>"
  have "ledStrip ?s4 = Some ?st" by simp
  from fold_strip_set_rgbw [OF this, of "\<lambda>i. i" "\<lambda>i. off" "[0..<unat count]"]
  show ?thesis
    by (simp add: initializeStrip_def Let_def strip_sync_def set_output_def SK6812_new_def
        fold_update_replicate)
qed

section \<open>The guard on the initialized flag\<close>

lemma cmdSetBrightness_eq:
  assumes "ready 1 (clock s + 1000) s"
  shows "cmdSetBrightness s =
    sendResponse RESP_OK ((consume 1 s)\<lparr>globalBrightness := payload 1 s ! 0\<rparr>)"
proof -
  note w = waitForBytes_readable [OF assms]
  have len: "1 \<le> length (rx s)" using assms by (simp add: ready_def)
  from read8_readable0 [OF w(2)] w(1) len show ?thesis
    by (simp add: cmdSetBrightness_def payload_nth consume_def)
qed

text \<open>
  The handlers taken as functions of the state, whether the firmware can get there or
  not. The handlers of the commands in \<open>guarded\<close> start with the test of
  \<^verbatim>\<open>stripInitialized\<close>: with the flag clear they send the NotInitialized frame and do
  nothing else. The handlers of buffer_start and set_brightness have no such test.
\<close>

lemma guard_answers_not_initialized:
  assumes "\<not> stripInitialized s"
  shows "(\<forall>cmd \<in> set guarded. processCommand cmd s = sendError ERR_NOT_INITIALIZED s)
    \<and> processCommand CMD_BUFFER_START s = sendResponse RESP_OK (s\<lparr>cmdBufferPos := 0\<rparr>)
    \<and> (ready 1 (clock s + 1000) s \<longrightarrow>
         processCommand CMD_BRIGHTNESS s =
           sendResponse RESP_OK ((consume 1 s)\<lparr>globalBrightness := payload 1 s ! 0\<rparr>))"
proof (intro conjI ballI impI)
  fix cmd assume "cmd \<in> set guarded"
  then consider "cmd = CMD_SET_PIXEL_RGBW" | "cmd = CMD_SET_PIXEL_RGB" | "cmd = CMD_SET_PIXEL_W"
    | "cmd = CMD_SET_RANGE_RGBW" | "cmd = CMD_SET_ALL_RGBW" | "cmd = CMD_CLEAR_ALL"
    | "cmd = CMD_BUFFER_PIXEL" | "cmd = CMD_BUFFER_END" | "cmd = CMD_STREAM_START"
    | "cmd = CMD_STREAM_DATA" | "cmd = CMD_STREAM_END" | "cmd = CMD_BULK_UPDATE"
    | "cmd = CMD_SYNC" | "cmd = CMD_FILL_GRADIENT"
    by (auto simp: guarded_def)
  then show "processCommand cmd s = sendError ERR_NOT_INITIALIZED s"
    using assms
    by cases
      (simp_all add: processCommand_def cmdSetPixelRGBW_def cmdSetPixelRGB_def cmdSetPixelW_def
        cmdSetRangeRGBW_def cmdSetAllRGBW_def cmdClearAll_def cmdBufferPixel_def
        cmdBufferEnd_def cmdStreamStart_def cmdStreamData_def cmdStreamEnd_def
        cmdBulkUpdate_def cmdFillGradient_def)
next
  show "processCommand CMD_BUFFER_START s = sendResponse RESP_OK (s\<lparr>cmdBufferPos := 0\<rparr>)"
    by (simp add: processCommand_def cmdBufferStart_def)
next
  assume "ready 1 (clock s + 1000) s"
  then show "processCommand CMD_BRIGHTNESS s =
      sendResponse RESP_OK ((consume 1 s)\<lparr>globalBrightness := payload 1 s ! 0\<rparr>)"
    by (simp add: processCommand_def cmdSetBrightness_eq)
qed

section \<open>Reset\<close>

text \<open>
  C8. From every engine state (so from every reachable one), processing reset leaves
  the LED count at the default 107, the pin at the default 6 and the brightness at 255,
  replaces the strip by one of 107 pixels that are all zero on pin 6, commits that
  cleared buffer, marks the store initialized and answers with the single byte OK.
\<close>

theorem reset_restores_defaults:
  "ledCount (processCommand CMD_RESET s) = DEFAULT_LED_COUNT
   \<and> ledPin (processCommand CMD_RESET s) = DEFAULT_LED_PIN
   \<and> globalBrightness (processCommand CMD_RESET s) = 255
   \<and> ledStrip (processCommand CMD_RESET s)
       = Some \<lparr>pixels = replicate 107 off, out_pin = DEFAULT_LED_PIN\<rparr>
   \<and> stripInitialized (processCommand CMD_RESET s)
   \<and> frames (processCommand CMD_RESET s) = frames s @ [replicate 107 off]
   \<and> tx (processCommand CMD_RESET s) = tx s @ [RESP_OK]"
  by (simp add: processCommand_def initializeStrip_eq)

section \<open>Fetching a payload\<close>

lemma fetched_fields [simp]:
  "ledStrip (fetched k n s) = ledStrip s" "ledCount (fetched k n s) = ledCount s"
  "ledPin (fetched k n s) = ledPin s" "stripInitialized (fetched k n s) = stripInitialized s"
  "globalBrightness (fetched k n s) = globalBrightness s"
  "cmdBufferPos (fetched k n s) = cmdBufferPos s" "streamMode (fetched k n s) = streamMode s"
  "streamIndex (fetched k n s) = streamIndex s" "streamCount (fetched k n s) = streamCount s"
  "tx (fetched k n s) = tx s" "frames (fetched k n s) = frames s" "junk (fetched k n s) = junk s"
  "fault (fetched k n s) = fault s" "rx (fetched k n s) = drop k (rx s)"
  "clock (fetched k n s) = max (clock s) (latest (take n (rx s)))"
  by (simp_all add: fetched_def)

lemma fetched_all: "fetched n n s = consume n s"
  by (simp add: fetched_def consume_def)

lemma applyBrightness_fetched [simp]: "applyBrightness (fetched k n s) = applyBrightness s"
  by (rule ext) (simp add: applyBrightness_def)

lemma waitForBytes_fetched:
  "ready n (clock s + timeout) s \<Longrightarrow> waitForBytes n timeout s = (True, fetched 0 n s)"
  by (simp add: waitForBytes_ready fetched_def)

lemma readable_fetched: "n \<le> length (rx s) \<Longrightarrow> readable n (fetched 0 n s)"
  using readable_waited [of n s] by (simp add: fetched_def)

lemma fetched_drop:
  "(fetched 0 n s)\<lparr>rx := drop k (rx (fetched 0 n s))\<rparr> = fetched k n s"
  by (simp add: fetched_def)

lemma read8_fetched:
  assumes "n \<le> length (rx s)" "k < n" "k' = Suc k"
  shows "read8 (fetched k n s) = (payload n s ! k, fetched k' n s)"
  using read8_drop [OF readable_fetched [OF assms(1)] assms(2)] assms
  by (simp add: fetched_def payload_nth)

lemma read16_fetched:
  assumes "n \<le> length (rx s)" "k1 < n" "k1 = Suc k" "k' = Suc k1"
  shows "read16 (fetched k n s) = (word16 (payload n s ! k) (payload n s ! k1), fetched k' n s)"
  using read16_drop [OF readable_fetched [OF assms(1)], of k] assms
  by (simp add: fetched_def payload_nth)

lemma readRGBW_fetched:
  assumes "n \<le> length (rx s)" "k3 < n" "k1 = Suc k" "k2 = Suc k1" "k3 = Suc k2" "k' = Suc k3"
  shows "readRGBW (fetched k n s) =
    (\<lparr>r = payload n s ! k, g = payload n s ! k1, b = payload n s ! k2, w = payload n s ! k3\<rparr>,
     fetched k' n s)"
  using readRGBW_drop [OF readable_fetched [OF assms(1)], of k] assms
  by (simp add: fetched_def payload_nth eval_nat_numeral)

lemma ready_length: "ready n d s \<Longrightarrow> n \<le> length (rx s)"
  by (simp add: ready_def)


section \<open>The handlers when the payload arrives in time\<close>

lemma cmdSetLedCount_eq:
  assumes "ready 2 (clock s + 1000) s"
  shows "cmdSetLedCount s =
    (if 0 < word16 (payload 2 s ! 0) (payload 2 s ! 1) \<and> word16 (payload 2 s ! 0) (payload 2 s ! 1) \<le> 1000
     then sendResponse RESP_OK ((consume 2 s)\<lparr>ledCount := word16 (payload 2 s ! 0) (payload 2 s ! 1)\<rparr>)
     else sendError ERR_INVALID_PARAM (consume 2 s))"
proof -
  note len = ready_length [OF assms]
  have w: "waitForBytes 2 1000 s = (True, fetched 0 2 s)"
    by (rule waitForBytes_fetched [OF assms])
  have r0: "read16 (fetched 0 2 s) = (word16 (payload 2 s ! 0) (payload 2 s ! 1), fetched 2 2 s)"
    by (rule read16_fetched [OF len]) simp_all
  show ?thesis
    unfolding cmdSetLedCount_def using assms by (simp add: w r0 fetched_all)
qed

lemma cmdSetPixelRGBW_eq:
  assumes "stripInitialized s" "ready 6 (clock s + 1000) s"
  shows "cmdSetPixelRGBW s =
    (if word16 (payload 6 s ! 0) (payload 6 s ! 1) < ledCount s then
       sendResponse RESP_OK (strip_sync (strip_set_rgbw (unat (word16 (payload 6 s ! 0) (payload 6 s ! 1)))
         (applyBrightness s \<lparr>r = payload 6 s ! 2, g = payload 6 s ! 3, b = payload 6 s ! 4, w = payload 6 s ! 5\<rparr>) (consume 6 s)))
     else sendError ERR_OUT_OF_RANGE (consume 6 s))"
proof -
  note len = ready_length [OF assms(2)]
  have w: "waitForBytes 6 1000 s = (True, fetched 0 6 s)"
    by (rule waitForBytes_fetched [OF assms(2)])
  have r0: "read16 (fetched 0 6 s) = (word16 (payload 6 s ! 0) (payload 6 s ! 1), fetched 2 6 s)"
    by (rule read16_fetched [OF len]) simp_all
  have r1: "readRGBW (fetched 2 6 s) =
      (\<lparr>r = payload 6 s ! 2, g = payload 6 s ! 3, b = payload 6 s ! 4, w = payload 6 s ! 5\<rparr>, fetched 6 6 s)"
    by (rule readRGBW_fetched [OF len]) simp_all
  show ?thesis
    unfolding cmdSetPixelRGBW_def using assms by (simp add: w r0 r1 fetched_all)
qed

lemma cmdSetPixelRGB_eq:
  assumes "stripInitialized s" "ready 5 (clock s + 1000) s"
  shows "cmdSetPixelRGB s =
    (if word16 (payload 5 s ! 0) (payload 5 s ! 1) < ledCount s then
       sendResponse RESP_OK (strip_sync (strip_set_rgbw (unat (word16 (payload 5 s ! 0) (payload 5 s ! 1)))
         (applyBrightness s \<lparr>r = payload 5 s ! 2, g = payload 5 s ! 3, b = payload 5 s ! 4, w = 0\<rparr>) (consume 5 s)))
     else sendError ERR_OUT_OF_RANGE (consume 5 s))"
proof -
  note len = ready_length [OF assms(2)]
  have w: "waitForBytes 5 1000 s = (True, fetched 0 5 s)"
    by (rule waitForBytes_fetched [OF assms(2)])
  have r0: "read16 (fetched 0 5 s) = (word16 (payload 5 s ! 0) (payload 5 s ! 1), fetched 2 5 s)"
    by (rule read16_fetched [OF len]) simp_all
  have r1: "read8 (fetched 2 5 s) = (payload 5 s ! 2, fetched 3 5 s)"
    by (rule read8_fetched [OF len]) simp_all
  have r2: "read8 (fetched 3 5 s) = (payload 5 s ! 3, fetched 4 5 s)"
    by (rule read8_fetched [OF len]) simp_all
  have r3: "read8 (fetched 4 5 s) = (payload 5 s ! 4, fetched 5 5 s)"
    by (rule read8_fetched [OF len]) simp_all
  show ?thesis
    unfolding cmdSetPixelRGB_def using assms by (simp add: w r0 r1 r2 r3 fetched_all)
qed

lemma cmdSetPixelW_eq:
  assumes "stripInitialized s" "ready 3 (clock s + 1000) s"
  shows "cmdSetPixelW s =
    (if word16 (payload 3 s ! 0) (payload 3 s ! 1) < ledCount s then
       sendResponse RESP_OK (strip_sync (strip_set_rgbw (unat (word16 (payload 3 s ! 0) (payload 3 s ! 1)))
         (applyBrightness s \<lparr>r = 0, g = 0, b = 0, w = payload 3 s ! 2\<rparr>) (consume 3 s)))
     else sendError ERR_OUT_OF_RANGE (consume 3 s))"
proof -
  note len = ready_length [OF assms(2)]
  have w: "waitForBytes 3 1000 s = (True, fetched 0 3 s)"
    by (rule waitForBytes_fetched [OF assms(2)])
  have r0: "read16 (fetched 0 3 s) = (word16 (payload 3 s ! 0) (payload 3 s ! 1), fetched 2 3 s)"
    by (rule read16_fetched [OF len]) simp_all
  have r1: "read8 (fetched 2 3 s) = (payload 3 s ! 2, fetched 3 3 s)"
    by (rule read8_fetched [OF len]) simp_all
  show ?thesis
    unfolding cmdSetPixelW_def using assms by (simp add: w r0 r1 fetched_all)
qed

lemma cmdSetRangeRGBW_eq:
  assumes "stripInitialized s" "ready 8 (clock s + 1000) s"
  shows "cmdSetRangeRGBW s =
    (if word16 (payload 8 s ! 0) (payload 8 s ! 1) < ledCount s \<and> word16 (payload 8 s ! 2) (payload 8 s ! 3) < ledCount s
        \<and> word16 (payload 8 s ! 0) (payload 8 s ! 1) \<le> word16 (payload 8 s ! 2) (payload 8 s ! 3)
     then
       sendResponse RESP_OK (strip_sync
         (fold (\<lambda>i. strip_set_rgbw i (applyBrightness s \<lparr>r = payload 8 s ! 4, g = payload 8 s ! 5, b = payload 8 s ! 6, w = payload 8 s ! 7\<rparr>))
            [unat (word16 (payload 8 s ! 0) (payload 8 s ! 1))..<Suc (unat (word16 (payload 8 s ! 2) (payload 8 s ! 3)))]
            (consume 8 s)))
     else sendError ERR_OUT_OF_RANGE (consume 8 s))"
proof -
  note len = ready_length [OF assms(2)]
  have w: "waitForBytes 8 1000 s = (True, fetched 0 8 s)"
    by (rule waitForBytes_fetched [OF assms(2)])
  have r0: "read16 (fetched 0 8 s) = (word16 (payload 8 s ! 0) (payload 8 s ! 1), fetched 2 8 s)"
    by (rule read16_fetched [OF len]) simp_all
  have r1: "read16 (fetched 2 8 s) = (word16 (payload 8 s ! 2) (payload 8 s ! 3), fetched 4 8 s)"
    by (rule read16_fetched [OF len]) simp_all
  have r2: "readRGBW (fetched 4 8 s) =
      (\<lparr>r = payload 8 s ! 4, g = payload 8 s ! 5, b = payload 8 s ! 6, w = payload 8 s ! 7\<rparr>, fetched 8 8 s)"
    by (rule readRGBW_fetched [OF len]) simp_all
  show ?thesis
    unfolding cmdSetRangeRGBW_def using assms by (simp add: w r0 r1 r2 fetched_all)
qed

lemma cmdSetAllRGBW_eq:
  assumes "stripInitialized s" "ready 4 (clock s + 1000) s"
  shows "cmdSetAllRGBW s =
    sendResponse RESP_OK (strip_sync
      (fold (\<lambda>i. strip_set_rgbw i (applyBrightness s \<lparr>r = payload 4 s ! 0, g = payload 4 s ! 1, b = payload 4 s ! 2, w = payload 4 s ! 3\<rparr>))
         [0..<unat (ledCount s)] (consume 4 s)))"
proof -
  note len = ready_length [OF assms(2)]
  have w: "waitForBytes 4 1000 s = (True, fetched 0 4 s)"
    by (rule waitForBytes_fetched [OF assms(2)])
  have r0: "readRGBW (fetched 0 4 s) =
      (\<lparr>r = payload 4 s ! 0, g = payload 4 s ! 1, b = payload 4 s ! 2, w = payload 4 s ! 3\<rparr>, fetched 4 4 s)"
    by (rule readRGBW_fetched [OF len]) simp_all
  show ?thesis
    unfolding cmdSetAllRGBW_def using assms by (simp add: w r0 fetched_all)
qed

lemma cmdBufferPixel_eq:
  assumes "stripInitialized s" "ready 6 (clock s + 1000) s"
  shows "cmdBufferPixel s =
    (if word16 (payload 6 s ! 0) (payload 6 s ! 1) < ledCount s then
       sendResponse RESP_OK (strip_set_rgbw (unat (word16 (payload 6 s ! 0) (payload 6 s ! 1)))
         (applyBrightness s \<lparr>r = payload 6 s ! 2, g = payload 6 s ! 3, b = payload 6 s ! 4, w = payload 6 s ! 5\<rparr>) (consume 6 s))
     else sendError ERR_OUT_OF_RANGE (consume 6 s))"
proof -
  note len = ready_length [OF assms(2)]
  have w: "waitForBytes 6 1000 s = (True, fetched 0 6 s)"
    by (rule waitForBytes_fetched [OF assms(2)])
  have r0: "read16 (fetched 0 6 s) = (word16 (payload 6 s ! 0) (payload 6 s ! 1), fetched 2 6 s)"
    by (rule read16_fetched [OF len]) simp_all
  have r1: "readRGBW (fetched 2 6 s) =
      (\<lparr>r = payload 6 s ! 2, g = payload 6 s ! 3, b = payload 6 s ! 4, w = payload 6 s ! 5\<rparr>, fetched 6 6 s)"
    by (rule readRGBW_fetched [OF len]) simp_all
  show ?thesis
    unfolding cmdBufferPixel_def using assms by (simp add: w r0 r1 fetched_all)
qed

lemma cmdStreamStart_eq:
  assumes "stripInitialized s" "ready 2 (clock s + 1000) s"
  shows "cmdStreamStart s =
    sendResponse RESP_OK
      ((consume 2 s)\<lparr>streamCount := word16 (payload 2 s ! 0) (payload 2 s ! 1), streamIndex := 0, streamMode := True\<rparr>)"
proof -
  note len = ready_length [OF assms(2)]
  have w: "waitForBytes 2 1000 s = (True, fetched 0 2 s)"
    by (rule waitForBytes_fetched [OF assms(2)])
  have r0: "read16 (fetched 0 2 s) = (word16 (payload 2 s ! 0) (payload 2 s ! 1), fetched 2 2 s)"
    by (rule read16_fetched [OF len]) simp_all
  show ?thesis
    unfolding cmdStreamStart_def using assms by (simp add: w r0 fetched_all)
qed

lemma cmdStreamData_eq:
  assumes "stripInitialized s" "streamMode s" "ready 4 (clock s + 1000) s"
  shows "cmdStreamData s =
    (if streamIndex s < ledCount s \<and> streamIndex s < streamCount s then
       sendResponse RESP_OK
         ((strip_set_rgbw (unat (streamIndex s)) (applyBrightness s \<lparr>r = payload 4 s ! 0, g = payload 4 s ! 1, b = payload 4 s ! 2, w = payload 4 s ! 3\<rparr>) (consume 4 s))
          \<lparr>streamIndex := streamIndex s + 1\<rparr>)
     else sendError ERR_OUT_OF_RANGE (consume 4 s))"
proof -
  note len = ready_length [OF assms(3)]
  have w: "waitForBytes 4 1000 s = (True, fetched 0 4 s)"
    by (rule waitForBytes_fetched [OF assms(3)])
  have r0: "readRGBW (fetched 0 4 s) =
      (\<lparr>r = payload 4 s ! 0, g = payload 4 s ! 1, b = payload 4 s ! 2, w = payload 4 s ! 3\<rparr>, fetched 4 4 s)"
    by (rule readRGBW_fetched [OF len]) simp_all
  show ?thesis
    unfolding cmdStreamData_def using assms by (simp add: w r0 fetched_all)
qed

lemma cmdFillGradient_eq:
  assumes "stripInitialized s" "ready 12 (clock s + 1000) s"
  shows "cmdFillGradient s =
    (if word16 (payload 12 s ! 0) (payload 12 s ! 1) < ledCount s \<and> word16 (payload 12 s ! 2) (payload 12 s ! 3) < ledCount s
        \<and> word16 (payload 12 s ! 0) (payload 12 s ! 1) \<le> word16 (payload 12 s ! 2) (payload 12 s ! 3)
     then
       sendResponse RESP_OK (strip_sync
         (fold (gradientStep (unat (word16 (payload 12 s ! 0) (payload 12 s ! 1)))
                  (unat (word16 (payload 12 s ! 2) (payload 12 s ! 3) - word16 (payload 12 s ! 0) (payload 12 s ! 1)))
                  \<lparr>r = payload 12 s ! 4, g = payload 12 s ! 5, b = payload 12 s ! 6, w = payload 12 s ! 7\<rparr>
                  \<lparr>r = payload 12 s ! 8, g = payload 12 s ! 9, b = payload 12 s ! 10, w = payload 12 s ! 11\<rparr>)
            [0..<Suc (unat (word16 (payload 12 s ! 2) (payload 12 s ! 3) - word16 (payload 12 s ! 0) (payload 12 s ! 1)))]
            (consume 12 s)))
     else sendError ERR_OUT_OF_RANGE (consume 12 s))"
proof -
  note len = ready_length [OF assms(2)]
  have w: "waitForBytes 12 1000 s = (True, fetched 0 12 s)"
    by (rule waitForBytes_fetched [OF assms(2)])
  have r0: "read16 (fetched 0 12 s) = (word16 (payload 12 s ! 0) (payload 12 s ! 1), fetched 2 12 s)"
    by (rule read16_fetched [OF len]) simp_all
  have r1: "read16 (fetched 2 12 s) = (word16 (payload 12 s ! 2) (payload 12 s ! 3), fetched 4 12 s)"
    by (rule read16_fetched [OF len]) simp_all
  have r2: "readRGBW (fetched 4 12 s) =
      (\<lparr>r = payload 12 s ! 4, g = payload 12 s ! 5, b = payload 12 s ! 6, w = payload 12 s ! 7\<rparr>, fetched 8 12 s)"
    by (rule readRGBW_fetched [OF len]) simp_all
  have r3: "readRGBW (fetched 8 12 s) =
      (\<lparr>r = payload 12 s ! 8, g = payload 12 s ! 9, b = payload 12 s ! 10, w = payload 12 s ! 11\<rparr>, fetched 12 12 s)"
    by (rule readRGBW_fetched [OF len]) simp_all
  show ?thesis
    unfolding cmdFillGradient_def using assms by (simp add: Let_def w r0 r1 r2 r3 fetched_all)
qed

section \<open>Start-up and the main loop\<close>

lemma flashOnce_eq:
  "ledStrip s = Some st \<Longrightarrow>
   flashOnce s =
     s\<lparr>ledStrip := Some (st\<lparr>pixels := (pixels st)[0 := off]\<rparr>),
       clock := clock s + 100,
       frames := frames s @ [(pixels st)[0 := \<lparr>r = 0, g = 0, b = 0, w = 50\<rparr>], (pixels st)[0 := off]]\<rparr>"
  by (simp add: flashOnce_def Let_def strip_set_rgbw_Some strip_sync_Some delay_def)

lemma replicate_update_same [simp]: "(replicate n x)[i := x] = replicate n x"
  by (induction n arbitrary: i) (simp_all split: nat.splits)

lemma flash_loop:
  "ledStrip s = Some \<lparr>pixels = replicate n off, out_pin = p\<rparr> \<Longrightarrow>
   fold (\<lambda>i. flashOnce) js s =
     s\<lparr>clock := clock s + 100 * length js,
       frames := frames s @ concat (map (\<lambda>i.
         [(replicate n off)[0 := \<lparr>r = 0, g = 0, b = 0, w = 50\<rparr>], replicate n off]) js)\<rparr>"
proof (induction js arbitrary: s)
  case Nil
  then show ?case by simp
next
  case (Cons j js)
  have "ledStrip (flashOnce s) = Some \<lparr>pixels = replicate n off, out_pin = p\<rparr>"
    using Cons.prems by (simp add: flashOnce_eq)
  from Cons.IH [OF this] Cons.prems show ?case
    by (simp add: flashOnce_eq)
qed

lemma booted_fields [simp]:
  "ledStrip (booted line) = Some \<lparr>pixels = replicate 107 off, out_pin = DEFAULT_LED_PIN\<rparr>"
  "ledCount (booted line) = DEFAULT_LED_COUNT" "ledPin (booted line) = DEFAULT_LED_PIN"
  "stripInitialized (booted line)" "globalBrightness (booted line) = 255"
  "cmdBufferPos (booted line) = 0" "\<not> streamMode (booted line)"
  "streamIndex (booted line) = 0" "streamCount (booted line) = 0"
  "rx (booted line) = line" "tx (booted line) = []" "clock (booted line) = 300"
  "\<not> fault (booted line)"
proof -
  let ?s1 = "initializeStrip (ledCount (power_on off line)) (ledPin (power_on off line))
    (power_on off line)"
  have "ledStrip ?s1 = Some \<lparr>pixels = replicate 107 off, out_pin = DEFAULT_LED_PIN\<rparr>"
    by (simp add: initializeStrip_eq power_on_def)
  note fl = flash_loop [OF this, of "[0..<3]"]
  show
    "ledStrip (booted line) = Some \<lparr>pixels = replicate 107 off, out_pin = DEFAULT_LED_PIN\<rparr>"
    "ledCount (booted line) = DEFAULT_LED_COUNT" "ledPin (booted line) = DEFAULT_LED_PIN"
    "stripInitialized (booted line)" "globalBrightness (booted line) = 255"
    "cmdBufferPos (booted line) = 0" "\<not> streamMode (booted line)"
    "streamIndex (booted line) = 0" "streamCount (booted line) = 0"
    "rx (booted line) = line" "tx (booted line) = []" "clock (booted line) = 300"
    "\<not> fault (booted line)"
    unfolding booted_def setup_board_def Let_def fl
    by (simp_all add: initializeStrip_eq power_on_def)
qed

lemma latest_map_Pair_0 [simp]: "latest (map (Pair 0) bs) = 0"
  by (induction bs) (simp_all add: latest_def)

lemma latest_at_once [simp]: "latest (take n (at_once bs)) = 0"
  by (simp add: at_once_def take_map)

lemma ready_booted:
  "n \<le> length bs \<Longrightarrow> ready n d (booted (at_once bs))"
  by (simp add: ready_def) (simp add: at_once_def)

lemma payload_booted: "payload n (booted (at_once bs)) = take n bs"
  by (simp add: payload_def at_once_def take_map comp_def)

section \<open>Indices out of range\<close>

text \<open>
  C4. On an initialized store, once the payload has arrived: set_pixel (in its three
  variants) and buffer_pixel with an index at or beyond the current LED count, and
  set_range and fill_gradient with a start or an end at or beyond it, answer OutOfRange.
  The resulting state is the one with the payload consumed and the error frame sent: the
  pixel store and the committed frames are the old ones, so nothing is written at any
  index (no clamping).
\<close>

theorem out_of_range_index_rejected:
  assumes "stripInitialized s"
  shows
    "(ready 6 (clock s + 1000) s \<and> ledCount s \<le> word16 (payload 6 s ! 0) (payload 6 s ! 1)
        \<longrightarrow> processCommand CMD_SET_PIXEL_RGBW s = sendError ERR_OUT_OF_RANGE (consume 6 s))
     \<and> (ready 5 (clock s + 1000) s \<and> ledCount s \<le> word16 (payload 5 s ! 0) (payload 5 s ! 1)
        \<longrightarrow> processCommand CMD_SET_PIXEL_RGB s = sendError ERR_OUT_OF_RANGE (consume 5 s))
     \<and> (ready 3 (clock s + 1000) s \<and> ledCount s \<le> word16 (payload 3 s ! 0) (payload 3 s ! 1)
        \<longrightarrow> processCommand CMD_SET_PIXEL_W s = sendError ERR_OUT_OF_RANGE (consume 3 s))
     \<and> (ready 6 (clock s + 1000) s \<and> ledCount s \<le> word16 (payload 6 s ! 0) (payload 6 s ! 1)
        \<longrightarrow> processCommand CMD_BUFFER_PIXEL s = sendError ERR_OUT_OF_RANGE (consume 6 s))
     \<and> (ready 8 (clock s + 1000) s
          \<and> (ledCount s \<le> word16 (payload 8 s ! 0) (payload 8 s ! 1)
               \<or> ledCount s \<le> word16 (payload 8 s ! 2) (payload 8 s ! 3))
        \<longrightarrow> processCommand CMD_SET_RANGE_RGBW s = sendError ERR_OUT_OF_RANGE (consume 8 s))
     \<and> (ready 12 (clock s + 1000) s
          \<and> (ledCount s \<le> word16 (payload 12 s ! 0) (payload 12 s ! 1)
               \<or> ledCount s \<le> word16 (payload 12 s ! 2) (payload 12 s ! 3))
        \<longrightarrow> processCommand CMD_FILL_GRADIENT s = sendError ERR_OUT_OF_RANGE (consume 12 s))
     \<and> ledStrip (sendError ERR_OUT_OF_RANGE (consume n s)) = ledStrip s
     \<and> frames (sendError ERR_OUT_OF_RANGE (consume n s)) = frames s
     \<and> tx (sendError ERR_OUT_OF_RANGE (consume n s)) = tx s @ [RESP_ERROR, ERR_OUT_OF_RANGE]"
  using assms
  by (auto simp: processCommand_def cmdSetPixelRGBW_eq cmdSetPixelRGB_eq cmdSetPixelW_eq
      cmdBufferPixel_eq cmdSetRangeRGBW_eq cmdFillGradient_eq not_less [symmetric])

theorem out_of_range_index_rejected_witness:
  "stripInitialized (booted (at_once [0, 107, 0, 107, 1, 2, 3, 4, 5, 6, 7, 8]))
   \<and> ledCount (booted (at_once [0, 107, 0, 107, 1, 2, 3, 4, 5, 6, 7, 8])) = 107
   \<and> word16 0 107 = 107
   \<and> processCommand CMD_SET_PIXEL_RGBW (booted (at_once [0, 107, 0, 107, 1, 2, 3, 4, 5, 6, 7, 8]))
       = sendError ERR_OUT_OF_RANGE
           (consume 6 (booted (at_once [0, 107, 0, 107, 1, 2, 3, 4, 5, 6, 7, 8])))
   \<and> processCommand CMD_FILL_GRADIENT (booted (at_once [0, 107, 0, 107, 1, 2, 3, 4, 5, 6, 7, 8]))
       = sendError ERR_OUT_OF_RANGE
           (consume 12 (booted (at_once [0, 107, 0, 107, 1, 2, 3, 4, 5, 6, 7, 8])))
   \<and> ledStrip (processCommand CMD_SET_PIXEL_RGBW
         (booted (at_once [0, 107, 0, 107, 1, 2, 3, 4, 5, 6, 7, 8])))
       = Some \<lparr>pixels = replicate 107 off, out_pin = DEFAULT_LED_PIN\<rparr>"
proof -
  let ?s = "booted (at_once [0, 107, 0, 107, 1, 2, 3, 4, 5, 6, 7, 8])"
  have i: "stripInitialized ?s" by simp
  have w: "word16 0 107 = 107" by (simp add: word16_def)
  have r: "ready 6 (clock ?s + 1000) ?s" "ready 12 (clock ?s + 1000) ?s"
    by (simp_all add: ready_booted)
  have p: "payload 6 ?s ! 0 = 0" "payload 6 ?s ! 1 = 107" "payload 12 ?s ! 0 = 0"
    "payload 12 ?s ! 1 = 107"
    by (simp_all add: payload_booted)
  from out_of_range_index_rejected [OF i, of 6] r w p show ?thesis by simp
qed

section \<open>A single pixel\<close>

lemma sync_set_pixel:
  assumes "stripInitialized s" "ledStrip s = Some st"
  shows "ledStrip (processCommand CMD_SYNC
           (sendResponse RESP_OK (strip_sync (strip_set_rgbw i c (consume n s)))))
         = Some (st\<lparr>pixels := (pixels st)[i := c]\<rparr>)"
    and "tx (processCommand CMD_SYNC
           (sendResponse RESP_OK (strip_sync (strip_set_rgbw i c (consume n s)))))
         = tx s @ [RESP_OK, RESP_OK]"
    and "frames (processCommand CMD_SYNC
           (sendResponse RESP_OK (strip_sync (strip_set_rgbw i c (consume n s)))))
         = frames s @ [(pixels st)[i := c], (pixels st)[i := c]]"
  using assms by (simp_all add: processCommand_def strip_set_rgbw_Some strip_sync_Some)

text \<open>
  C7 (as amended). On an initialized store, for an index below the LED count, set_pixel
  (once its payload has arrived) followed by sync answers OK twice and leaves the store
  equal to the old pixel list updated at that index with the brightness-scaled colour;
  the RGB variant writes white 0, the white-only variant writes red, green and blue 0.
  Where the index addresses a pixel of the allocated strip, the value there is the
  scaled input and every other index keeps its value. Where the index lies at or beyond
  the length the strip was allocated with (which happens once set_led_count has raised
  the LED count above it and no init_strip has followed), nothing is stored: the store
  is exactly the old one.
\<close>

theorem set_pixel_then_sync:
  assumes "stripInitialized s" "ledStrip s = Some st"
    and "word16 hi lo < ledCount s"
  shows
    "(ready 6 (clock s + 1000) s \<and> payload 6 s = [hi, lo, cr, cg, cb, cw] \<longrightarrow>
        ledStrip (processCommand CMD_SYNC (processCommand CMD_SET_PIXEL_RGBW s))
          = Some (st\<lparr>pixels := (pixels st)[unat (word16 hi lo) :=
                applyBrightness s \<lparr>r = cr, g = cg, b = cb, w = cw\<rparr>]\<rparr>)
        \<and> tx (processCommand CMD_SYNC (processCommand CMD_SET_PIXEL_RGBW s))
          = tx s @ [RESP_OK, RESP_OK])
     \<and> (ready 5 (clock s + 1000) s \<and> payload 5 s = [hi, lo, cr, cg, cb] \<longrightarrow>
        ledStrip (processCommand CMD_SYNC (processCommand CMD_SET_PIXEL_RGB s))
          = Some (st\<lparr>pixels := (pixels st)[unat (word16 hi lo) :=
                applyBrightness s \<lparr>r = cr, g = cg, b = cb, w = 0\<rparr>]\<rparr>)
        \<and> tx (processCommand CMD_SYNC (processCommand CMD_SET_PIXEL_RGB s))
          = tx s @ [RESP_OK, RESP_OK])
     \<and> (ready 3 (clock s + 1000) s \<and> payload 3 s = [hi, lo, cw] \<longrightarrow>
        ledStrip (processCommand CMD_SYNC (processCommand CMD_SET_PIXEL_W s))
          = Some (st\<lparr>pixels := (pixels st)[unat (word16 hi lo) :=
                applyBrightness s \<lparr>r = 0, g = 0, b = 0, w = cw\<rparr>]\<rparr>)
        \<and> tx (processCommand CMD_SYNC (processCommand CMD_SET_PIXEL_W s))
          = tx s @ [RESP_OK, RESP_OK])
     \<and> length ((pixels st)[unat (word16 hi lo) := c]) = length (pixels st)
     \<and> (unat (word16 hi lo) < length (pixels st) \<longrightarrow>
          (pixels st)[unat (word16 hi lo) := c] ! unat (word16 hi lo) = c)
     \<and> (\<forall>k. k \<noteq> unat (word16 hi lo) \<longrightarrow>
          (pixels st)[unat (word16 hi lo) := c] ! k = pixels st ! k)
     \<and> (length (pixels st) \<le> unat (word16 hi lo) \<longrightarrow>
          (pixels st)[unat (word16 hi lo) := c] = pixels st)"
proof -
  have a: "processCommand CMD_SET_PIXEL_RGBW s = cmdSetPixelRGBW s"
    "processCommand CMD_SET_PIXEL_RGB s = cmdSetPixelRGB s"
    "processCommand CMD_SET_PIXEL_W s = cmdSetPixelW s"
    by (simp_all add: processCommand_def)
  show ?thesis
    unfolding a using assms
    by (auto simp: cmdSetPixelRGBW_eq cmdSetPixelRGB_eq cmdSetPixelW_eq sync_set_pixel
        list_update_beyond)
qed

section \<open>The stream session\<close>

lemma session_simps [simp]:
  "session (Serial_write x s) = session s" "session (sendResponse x s) = session s"
  "session (sendError x s) = session s" "session (sendInfo s) = session s"
  "session (strip_set_rgbw i c s) = session s" "session (strip_sync s) = session s"
  "session (initializeStrip count pin s) = session s"
  "session (snd (waitForBytes n to s)) = session s"
  "session (snd (waitLoop n st to s)) = session s"
  "session (snd (read8 s)) = session s" "session (snd (read16 s)) = session s"
  "session (snd (readRGBW s)) = session s"
  by (simp_all add: session_def sendInfo_def initializeStrip_eq)

lemma session_updates [simp]:
  "session (s\<lparr>ledCount := n\<rparr>) = session s" "session (s\<lparr>ledPin := p\<rparr>) = session s"
  "session (s\<lparr>globalBrightness := x\<rparr>) = session s"
  "session (s\<lparr>cmdBufferPos := q\<rparr>) = session s"
  by (simp_all add: session_def)

lemma session_fold:
  "(\<And>i s. session (h i s) = session s) \<Longrightarrow> session (fold h js s) = session s"
  by (induction js arbitrary: s) simp_all

lemma session_gradientStep [simp]: "session (gradientStep a n c1 c2 i s) = session s"
  by (simp add: gradientStep_def Let_def)

lemma session_bulkLoop [simp]: "session (snd (bulkLoop i n to st s)) = session s"
proof (induction i n to st s rule: bulkLoop.induct)
  case (1 i count timeout startTime s)
  show ?case
  proof (cases "i < count")
    case False
    then show ?thesis by (subst bulkLoop.simps) simp
  next
    case True
    show ?thesis
    proof (cases "waitLoop 4 startTime timeout s")
      case (Pair ok s1)
      have s1: "session s1 = session s"
        using session_simps(9) [of 4 startTime timeout s] Pair by simp
      show ?thesis
      proof (cases ok)
        case False
        with True Pair s1 show ?thesis by (subst bulkLoop.simps) simp
      next
        case ok: True
        obtain color s2 where rd: "readRGBW s1 = (color, s2)" by (cases "readRGBW s1")
        have s2: "session s2 = session s1"
          using session_simps(12) [of s1] rd by simp
        have okT: "ok = True" using ok by simp
        from "1.IH" [OF True Pair [symmetric] okT refl rd [symmetric] refl refl]
        have "session (snd (bulkLoop (Suc i) count timeout
                (millis (strip_set_rgbw i (applyBrightness s2 color) s2))
                (strip_set_rgbw i (applyBrightness s2 color) s2))) = session s"
          using s1 s2 by simp
        with True Pair ok rd show ?thesis
          by (subst bulkLoop.simps) (simp add: Let_def)
      qed
    qed
  qed
qed

lemma session_handlers:
  "session (cmdSetLedCount s) = session s" "session (cmdSetLedPin s) = session s"
  "session (cmdSetPixelRGBW s) = session s" "session (cmdSetPixelRGB s) = session s"
  "session (cmdSetPixelW s) = session s" "session (cmdSetRangeRGBW s) = session s"
  "session (cmdSetAllRGBW s) = session s" "session (cmdClearAll s) = session s"
  "session (cmdBufferStart s) = session s" "session (cmdBufferPixel s) = session s"
  "session (cmdBufferEnd s) = session s" "session (cmdBulkUpdate s) = session s"
  "session (cmdFillGradient s) = session s" "session (cmdSetBrightness s) = session s"
  unfolding cmdSetLedCount_def cmdSetLedPin_def cmdSetPixelRGBW_def cmdSetPixelRGB_def
    cmdSetPixelW_def cmdSetRangeRGBW_def cmdSetAllRGBW_def cmdClearAll_def cmdBufferStart_def
    cmdBufferPixel_def cmdBufferEnd_def cmdBulkUpdate_def cmdFillGradient_def
    cmdSetBrightness_def
  by (simp_all add: split_def Let_def session_fold split: bool.splits)


lemma streamData_keeps:
  "streamMode (cmdStreamData s) = streamMode s"
  "streamCount (cmdStreamData s) = streamCount s"
  "streamIndex (cmdStreamData s) = streamIndex s
     \<or> streamIndex (cmdStreamData s) = streamIndex s + 1"
  unfolding cmdStreamData_def
  by (simp_all add: split_def Let_def split: bool.splits)

section \<open>Bytes already in the receive buffer\<close>

lemma buffered_ready:
  assumes "buffered bs s" "n \<le> length bs"
  shows "ready n (clock s + t) s"
proof -
  have rd: "ready (length bs) (clock s) s"
    using assms(1) by (simp add: buffered_def readable_def)
  have "set (take n (rx s)) \<subseteq> set (take (length bs) (rx s))"
    by (rule set_take_subset_set_take [OF assms(2)])
  with rd have "\<forall>p\<in>set (take n (rx s)). fst p \<le> clock s"
    by (auto simp: ready_def latest_le)
  then have "latest (take n (rx s)) \<le> clock s + t"
    by (auto simp: latest_le intro: trans_le_add1)
  with rd assms(2) show ?thesis by (simp add: ready_def)
qed

lemma buffered_payload: "buffered bs s \<Longrightarrow> n \<le> length bs \<Longrightarrow> payload n s = take n bs"
proof -
  assume b: "buffered bs s" and n: "n \<le> length bs"
  then have "take n (payload (length bs) s) = take n bs" by (simp add: buffered_def)
  with n show ?thesis by (simp add: payload_def take_map min_def)
qed

lemma buffered_clock: "buffered bs s \<Longrightarrow> n \<le> length bs \<Longrightarrow> clock (consume n s) = clock s"
  using buffered_ready [of bs s n 0] by (simp add: ready_def max_def)

lemma buffered_consume:
  assumes "buffered bs s" "n \<le> length bs"
  shows "buffered (drop n bs) (consume n s)"
proof -
  have rd: "readable (length bs) s" and p: "payload (length bs) s = bs"
    using assms(1) by (simp_all add: buffered_def)
  have c: "clock (consume n s) = clock s" by (rule buffered_clock [OF assms])
  have "readable (length bs - n) (s\<lparr>rx := drop n (rx s)\<rparr>)"
    by (rule readable_drop [OF rd assms(2)])
  then have 1: "readable (length (drop n bs)) (consume n s)"
    using c by (simp add: readable_def ready_def)
  have "payload (length bs - n) (consume n s) = drop n (payload (length bs) s)"
    using assms(2) by (simp add: payload_def drop_map drop_take)
  with p have 2: "payload (length (drop n bs)) (consume n s) = drop n bs" by simp
  from 1 2 show ?thesis by (simp add: buffered_def)
qed

lemma buffered_cong:
  "rx s' = rx s \<Longrightarrow> clock s' = clock s \<Longrightarrow> buffered bs s' = buffered bs s"
  by (simp add: buffered_def readable_def ready_def payload_def)

lemma buffered_simps [simp]:
  "buffered bs (sendResponse x s) = buffered bs s"
  "buffered bs (sendError x s) = buffered bs s"
  "buffered bs (strip_sync s) = buffered bs s"
  "buffered bs (strip_set_rgbw i c s) = buffered bs s"
  "buffered bs (s\<lparr>ledCount := n\<rparr>) = buffered bs s"
  "buffered bs (s\<lparr>streamIndex := k\<rparr>) = buffered bs s"
  "buffered bs (s\<lparr>streamCount := k\<rparr>) = buffered bs s"
  "buffered bs (s\<lparr>streamMode := m\<rparr>) = buffered bs s"
  by (simp_all add: buffered_def readable_def ready_def payload_def)

lemma buffered_booted [simp]: "buffered bs (booted (at_once bs))"
  by (simp add: buffered_def readable_def ready_def payload_def)
     (simp add: at_once_def comp_def)

lemma loop_buffered:
  assumes "buffered (cmd # bs) s"
  shows "loop s = processCommand cmd (consume (Suc 0) s)"
proof -
  have rd: "readable 1 s" and p: "payload 1 s = [cmd]"
    using buffered_ready [OF assms, of 1 0] buffered_payload [OF assms, of 1]
    by (simp_all add: readable_def)
  then have av: "0 < Serial_available s"
    using available_ge [of 1 s] by (simp add: readable_def)
  have len: "1 \<le> length (rx s)" using rd by (simp add: readable_def ready_def)
  have c: "clock (consume 1 s) = clock s" using buffered_clock [OF assms, of 1] by simp
  have "consume 1 s = s\<lparr>rx := drop 1 (rx s)\<rparr>"
    using c by (simp add: consume_def)
  moreover have "snd (rx s ! 0) = cmd"
    using p len payload_nth [of 0 1 s] by simp
  ultimately show ?thesis
    using read8_readable0 [OF rd] av by (simp add: loop_def)
qed

text \<open>
  C10 (as amended). Every command other than stream_start, stream_data and stream_end
  leaves the three variables of the stream session (active flag, cursor, expected count)
  as they were, whatever the state and whatever arrives on the line; this includes
  reset and init_strip, which recreate the pixel store, so an active session survives
  them. stream_data leaves the active flag and the expected count alone and either
  keeps the cursor or advances it by one.
\<close>

theorem session_only_changed_by_stream_commands:
  "(cmd \<noteq> CMD_STREAM_START \<and> cmd \<noteq> CMD_STREAM_DATA \<and> cmd \<noteq> CMD_STREAM_END
      \<longrightarrow> session (processCommand cmd s) = session s)
   \<and> session (processCommand CMD_RESET s) = session s
   \<and> session (processCommand CMD_INIT_STRIP s) = session s
   \<and> streamMode (processCommand CMD_STREAM_DATA s) = streamMode s
   \<and> streamCount (processCommand CMD_STREAM_DATA s) = streamCount s
   \<and> (streamIndex (processCommand CMD_STREAM_DATA s) = streamIndex s
        \<or> streamIndex (processCommand CMD_STREAM_DATA s) = streamIndex s + 1)"
proof -
  have 1: "session (processCommand cmd s) = session s"
    if "cmd \<noteq> CMD_STREAM_START" "cmd \<noteq> CMD_STREAM_DATA" "cmd \<noteq> CMD_STREAM_END" for cmd
    unfolding processCommand_def using that by (simp add: session_handlers)
  have 2: "session (processCommand CMD_RESET s) = session s"
    by (rule 1) simp_all
  have 3: "session (processCommand CMD_INIT_STRIP s) = session s"
    by (rule 1) simp_all
  have 4: "processCommand CMD_STREAM_DATA s = cmdStreamData s"
    by (simp add: processCommand_def)
  show ?thesis
    unfolding 4 using 1 2 3 streamData_keeps [of s] by blast
qed

lemma word16_0_5: "word16 0 5 = 5"
  by (simp add: word16_def)

theorem session_only_changed_by_stream_commands_witness:
  "CMD_CLEAR_ALL \<noteq> CMD_STREAM_START \<and> CMD_CLEAR_ALL \<noteq> CMD_STREAM_DATA
   \<and> CMD_CLEAR_ALL \<noteq> CMD_STREAM_END
   \<and> session (processCommand CMD_CLEAR_ALL
        (processCommand CMD_STREAM_START (booted (at_once [0, 5]))))
      = session (processCommand CMD_STREAM_START (booted (at_once [0, 5])))
   \<and> session (processCommand CMD_STREAM_START (booted (at_once [0, 5]))) = (True, 0, 5)"
proof -
  let ?s0 = "booted (at_once [0, 5])"
  have r: "ready 2 (clock ?s0 + 1000) ?s0" by (simp add: ready_booted)
  have "processCommand CMD_STREAM_START ?s0 = cmdStreamStart ?s0"
    by (simp add: processCommand_def)
  then have "session (processCommand CMD_STREAM_START ?s0) = (True, 0, 5)"
    by (simp add: cmdStreamStart_eq [OF _ r] payload_booted session_def word16_0_5)
  with session_only_changed_by_stream_commands
    [of CMD_CLEAR_ALL "processCommand CMD_STREAM_START ?s0"]
  show ?thesis by simp
qed

text \<open>
  The claim as first stated fails: stream_data is neither stream_start nor stream_end,
  and it moves the cursor. After start-up, stream_start with count 5 leaves the session
  active with cursor 0; one stream_data then leaves it with cursor 1.
\<close>

theorem stream_data_moves_the_cursor:
  "session (processCommand CMD_STREAM_START (booted (at_once [0, 5, 1, 2, 3, 4]))) = (True, 0, 5)
   \<and> session (processCommand CMD_STREAM_DATA
        (processCommand CMD_STREAM_START (booted (at_once [0, 5, 1, 2, 3, 4])))) = (True, 1, 5)"
proof -
  let ?s0 = "booted (at_once [0, 5, 1, 2, 3, 4])"
  let ?s1 = "processCommand CMD_STREAM_START ?s0"
  have b0: "buffered [0, 5, 1, 2, 3, 4] ?s0" by simp
  have r0: "ready 2 (clock ?s0 + 1000) ?s0" by (simp add: ready_booted)
  have s1: "?s1 = sendResponse RESP_OK
      ((consume 2 ?s0)\<lparr>streamCount := 5, streamIndex := 0, streamMode := True\<rparr>)"
    by (simp add: processCommand_def cmdStreamStart_eq [OF _ r0] payload_booted word16_0_5)
  have b1: "buffered [1, 2, 3, 4] ?s1"
    using buffered_consume [OF b0, of 2] by (simp add: s1)
  have r1: "ready 4 (clock ?s1 + 1000) ?s1"
    by (rule buffered_ready [OF b1]) simp
  have i1: "stripInitialized ?s1" "streamMode ?s1" by (simp_all add: s1)
  have "processCommand CMD_STREAM_DATA ?s1 = cmdStreamData ?s1"
    by (simp add: processCommand_def)
  then have "session (processCommand CMD_STREAM_DATA ?s1) = (True, 1, 5)"
    unfolding cmdStreamData_eq [OF i1 r1] by (simp add: s1 session_def)
  moreover have "session ?s1 = (True, 0, 5)" by (simp add: s1 session_def)
  ultimately show ?thesis by simp
qed

section \<open>The LED count and the capacity of the strip\<close>

lemma buffered_loop_payload:
  assumes "buffered (cmd # bs) s" "n \<le> length bs"
  shows "ready n (clock (consume (Suc 0) s) + 1000) (consume (Suc 0) s)"
    and "payload n (consume (Suc 0) s) = take n bs"
    and "buffered (drop n bs) (consume n (consume (Suc 0) s))"
proof -
  have b: "buffered bs (consume (Suc 0) s)"
    using buffered_consume [OF assms(1), of 1] by simp
  show "ready n (clock (consume (Suc 0) s) + 1000) (consume (Suc 0) s)"
    by (rule buffered_ready [OF b assms(2)])
  show "payload n (consume (Suc 0) s) = take n bs"
    by (rule buffered_payload [OF b assms(2)])
  show "buffered (drop n bs) (consume n (consume (Suc 0) s))"
    by (rule buffered_consume [OF b assms(2)])
qed

lemma loop_set_led_count:
  assumes "buffered (CMD_SET_LED_COUNT # chi # clo # bs) s"
    and "0 < word16 chi clo" "word16 chi clo \<le> 1000"
  shows "loop s = sendResponse RESP_OK ((consume 2 (consume (Suc 0) s))\<lparr>ledCount := word16 chi clo\<rparr>)"
    and "buffered bs (loop s)"
proof -
  have p1: "ready 2 (clock (consume (Suc 0) s) + 1000) (consume (Suc 0) s)"
    by (rule buffered_loop_payload(1) [OF assms(1)]) simp
  have p2: "payload 2 (consume (Suc 0) s) = [chi, clo]"
    using buffered_loop_payload(2) [OF assms(1), of 2] by simp
  have p3: "buffered bs (consume 2 (consume (Suc 0) s))"
    using buffered_loop_payload(3) [OF assms(1), of 2] by simp
  have "processCommand CMD_SET_LED_COUNT (consume (Suc 0) s) = cmdSetLedCount (consume (Suc 0) s)"
    by (simp add: processCommand_def)
  then show 1: "loop s =
      sendResponse RESP_OK ((consume 2 (consume (Suc 0) s))\<lparr>ledCount := word16 chi clo\<rparr>)"
    using assms(2,3)
    by (simp add: loop_buffered [OF assms(1)] cmdSetLedCount_eq [OF p1] p2)
  show "buffered bs (loop s)"
    using p3 by (simp add: 1)
qed

lemma field_fold:
  "(\<And>i s. f (h i s) = f s) \<Longrightarrow> f (fold h js s) = f s"
  by (induction js arbitrary: s) simp_all

lemma tx_gradientStep [simp]: "tx (gradientStep a n c1 c2 i s) = tx s"
  by (simp add: gradientStep_def Let_def)

lemma tx_fold_set [simp]: "tx (fold (\<lambda>i. strip_set_rgbw (idx i) (c i)) js s) = tx s"
  by (rule field_fold) simp

lemma tx_fold_gradient [simp]: "tx (fold (gradientStep a n c1 c2) js s) = tx s"
  by (rule field_fold) simp

text \<open>
  C9. Take an initialized engine whose strip was allocated with some capacity, and a
  set_led_count command whose (valid) count exceeds that capacity. The command succeeds
  and changes the LED count only: the strip keeps its capacity. From then on (no
  init_strip in between) each indexed write command, its payload arrived, is accepted
  with OK whenever its index (for set_range and fill_gradient: start \<le> end) is below the
  new count, also when the index lies at or beyond the capacity: the bounds checks
  compare with the LED count variable, not with the allocated capacity. For set_pixel
  the theorem adds what the modelled strip does with an accepted index beyond its
  capacity: nothing is stored.
\<close>

theorem bounds_checks_use_led_count_not_capacity:
  assumes "stripInitialized s" "ledStrip s = Some st"
    and "buffered [CMD_SET_LED_COUNT, chi, clo] s"
    and "0 < word16 chi clo" "word16 chi clo \<le> 1000"
    and "length (pixels st) < unat (word16 chi clo)"
  shows
    "ledCount (loop s) = word16 chi clo \<and> ledStrip (loop s) = Some st
     \<and> stripInitialized (loop s) \<and> tx (loop s) = tx s @ [RESP_OK]
     \<and> (ready 6 (clock (loop s) + 1000) (loop s)
          \<and> word16 (payload 6 (loop s) ! 0) (payload 6 (loop s) ! 1) < word16 chi clo
        \<longrightarrow> tx (processCommand CMD_SET_PIXEL_RGBW (loop s)) = tx s @ [RESP_OK, RESP_OK])
     \<and> (ready 5 (clock (loop s) + 1000) (loop s)
          \<and> word16 (payload 5 (loop s) ! 0) (payload 5 (loop s) ! 1) < word16 chi clo
        \<longrightarrow> tx (processCommand CMD_SET_PIXEL_RGB (loop s)) = tx s @ [RESP_OK, RESP_OK])
     \<and> (ready 3 (clock (loop s) + 1000) (loop s)
          \<and> word16 (payload 3 (loop s) ! 0) (payload 3 (loop s) ! 1) < word16 chi clo
        \<longrightarrow> tx (processCommand CMD_SET_PIXEL_W (loop s)) = tx s @ [RESP_OK, RESP_OK])
     \<and> (ready 6 (clock (loop s) + 1000) (loop s)
          \<and> word16 (payload 6 (loop s) ! 0) (payload 6 (loop s) ! 1) < word16 chi clo
        \<longrightarrow> tx (processCommand CMD_BUFFER_PIXEL (loop s)) = tx s @ [RESP_OK, RESP_OK])
     \<and> (ready 8 (clock (loop s) + 1000) (loop s)
          \<and> word16 (payload 8 (loop s) ! 0) (payload 8 (loop s) ! 1)
               \<le> word16 (payload 8 (loop s) ! 2) (payload 8 (loop s) ! 3)
          \<and> word16 (payload 8 (loop s) ! 2) (payload 8 (loop s) ! 3) < word16 chi clo
        \<longrightarrow> tx (processCommand CMD_SET_RANGE_RGBW (loop s)) = tx s @ [RESP_OK, RESP_OK])
     \<and> (ready 12 (clock (loop s) + 1000) (loop s)
          \<and> word16 (payload 12 (loop s) ! 0) (payload 12 (loop s) ! 1)
               \<le> word16 (payload 12 (loop s) ! 2) (payload 12 (loop s) ! 3)
          \<and> word16 (payload 12 (loop s) ! 2) (payload 12 (loop s) ! 3) < word16 chi clo
        \<longrightarrow> tx (processCommand CMD_FILL_GRADIENT (loop s)) = tx s @ [RESP_OK, RESP_OK])
     \<and> (ready 6 (clock (loop s) + 1000) (loop s)
          \<and> word16 (payload 6 (loop s) ! 0) (payload 6 (loop s) ! 1) < word16 chi clo
          \<and> length (pixels st) \<le> unat (word16 (payload 6 (loop s) ! 0) (payload 6 (loop s) ! 1))
        \<longrightarrow> ledStrip (processCommand CMD_SET_PIXEL_RGBW (loop s)) = Some st)"
proof -
  note l = loop_set_led_count [OF assms(3,4,5)]
  have f: "ledCount (loop s) = word16 chi clo" "ledStrip (loop s) = Some st"
    "stripInitialized (loop s)" "tx (loop s) = tx s @ [RESP_OK]"
    using assms(1,2) by (simp_all add: l(1))
  have c: "processCommand CMD_SET_PIXEL_RGBW (loop s) = cmdSetPixelRGBW (loop s)"
    "processCommand CMD_SET_PIXEL_RGB (loop s) = cmdSetPixelRGB (loop s)"
    "processCommand CMD_SET_PIXEL_W (loop s) = cmdSetPixelW (loop s)"
    "processCommand CMD_BUFFER_PIXEL (loop s) = cmdBufferPixel (loop s)"
    "processCommand CMD_SET_RANGE_RGBW (loop s) = cmdSetRangeRGBW (loop s)"
    "processCommand CMD_FILL_GRADIENT (loop s) = cmdFillGradient (loop s)"
    by (simp_all add: processCommand_def)
  have beyond: "(pixels st)[i := x] = pixels st" if "length (pixels st) \<le> i" for i x
    using that by (simp add: list_update_beyond)
  show ?thesis
    unfolding c using f
    by (auto simp: cmdSetPixelRGBW_eq cmdSetPixelRGB_eq cmdSetPixelW_eq cmdBufferPixel_eq
        cmdSetRangeRGBW_eq cmdFillGradient_eq strip_set_rgbw_Some beyond
        dest: order_le_less_trans)
qed

lemma word16_3_232: "word16 3 232 = 1000"
  by (simp add: word16_def)

lemma word16_1_244: "word16 1 244 = 500"
  by (simp add: word16_def)

theorem bounds_checks_use_led_count_not_capacity_witness:
  "stripInitialized (booted (at_once [CMD_SET_LED_COUNT, 3, 232, 1, 244, 9, 9, 9, 9]))
   \<and> ledStrip (booted (at_once [CMD_SET_LED_COUNT, 3, 232, 1, 244, 9, 9, 9, 9]))
       = Some \<lparr>pixels = replicate 107 off, out_pin = DEFAULT_LED_PIN\<rparr>
   \<and> word16 3 232 = 1000 \<and> word16 1 244 = 500
   \<and> ledCount (loop (booted (at_once [CMD_SET_LED_COUNT, 3, 232, 1, 244, 9, 9, 9, 9]))) = 1000
   \<and> ledStrip (loop (booted (at_once [CMD_SET_LED_COUNT, 3, 232, 1, 244, 9, 9, 9, 9])))
       = Some \<lparr>pixels = replicate 107 off, out_pin = DEFAULT_LED_PIN\<rparr>
   \<and> payload 6 (loop (booted (at_once [CMD_SET_LED_COUNT, 3, 232, 1, 244, 9, 9, 9, 9])))
       = [1, 244, 9, 9, 9, 9]
   \<and> tx (processCommand CMD_SET_PIXEL_RGBW
         (loop (booted (at_once [CMD_SET_LED_COUNT, 3, 232, 1, 244, 9, 9, 9, 9]))))
       = [RESP_OK, RESP_OK]
   \<and> ledStrip (processCommand CMD_SET_PIXEL_RGBW
         (loop (booted (at_once [CMD_SET_LED_COUNT, 3, 232, 1, 244, 9, 9, 9, 9]))))
       = Some \<lparr>pixels = replicate 107 off, out_pin = DEFAULT_LED_PIN\<rparr>"
proof -
  let ?s = "booted (at_once [CMD_SET_LED_COUNT, 3, 232, 1, 244, 9, 9, 9, 9])"
  let ?st = "\<lparr>pixels = replicate 107 off, out_pin = DEFAULT_LED_PIN\<rparr>"
  have i: "stripInitialized ?s" "ledStrip ?s = Some ?st" by simp_all
  have b: "buffered [CMD_SET_LED_COUNT, 3, 232, 1, 244, 9, 9, 9, 9] ?s" by simp
  have b3: "buffered [CMD_SET_LED_COUNT, 3, 232] ?s"
    using b by (simp add: buffered_def readable_def ready_def payload_def) (simp add: at_once_def)
  have v: "0 < word16 3 232" "word16 3 232 \<le> 1000" "length (pixels ?st) < unat (word16 3 232)"
    by (simp_all add: word16_3_232)
  note l = loop_set_led_count [OF b v(1,2)]
  have r: "ready 6 (clock (loop ?s) + 1000) (loop ?s)"
    by (rule buffered_ready [OF l(2)]) simp
  have p: "payload 6 (loop ?s) = [1, 244, 9, 9, 9, 9]"
    using buffered_payload [OF l(2), of 6] by simp
  from bounds_checks_use_led_count_not_capacity [OF i b3 v] r p
  show ?thesis by (simp add: word16_3_232 word16_1_244)
qed

section \<open>A stream of five pixels\<close>

lemma applyBrightness_cong:
  "globalBrightness s' = globalBrightness s \<Longrightarrow> applyBrightness s' c = applyBrightness s c"
  by (simp add: applyBrightness_def)

lemma RGBW_eta [simp]: "\<lparr>r = r c, g = g c, b = b c, w = w c\<rparr> = c"
  by (cases c) simp

lemma loop_stream_start:
  assumes "buffered (CMD_STREAM_START # hi # lo # bs) s" "stripInitialized s"
  shows "loop s = sendResponse RESP_OK
      ((consume 2 (consume (Suc 0) s))\<lparr>streamCount := word16 hi lo, streamIndex := 0,
         streamMode := True\<rparr>)"
    and "buffered bs (loop s)"
proof -
  have p1: "ready 2 (clock (consume (Suc 0) s) + 1000) (consume (Suc 0) s)"
    by (rule buffered_loop_payload(1) [OF assms(1)]) simp
  have p2: "payload 2 (consume (Suc 0) s) = [hi, lo]"
    using buffered_loop_payload(2) [OF assms(1), of 2] by simp
  have p3: "buffered bs (consume 2 (consume (Suc 0) s))"
    using buffered_loop_payload(3) [OF assms(1), of 2] by simp
  have i: "stripInitialized (consume (Suc 0) s)" using assms(2) by simp
  have "processCommand CMD_STREAM_START (consume (Suc 0) s) = cmdStreamStart (consume (Suc 0) s)"
    by (simp add: processCommand_def)
  then show 1: "loop s = sendResponse RESP_OK
      ((consume 2 (consume (Suc 0) s))\<lparr>streamCount := word16 hi lo, streamIndex := 0,
         streamMode := True\<rparr>)"
    by (simp add: loop_buffered [OF assms(1)] cmdStreamStart_eq [OF i p1] p2)
  show "buffered bs (loop s)"
    using p3 by (simp add: 1)
qed

lemma loop_stream_data:
  assumes "buffered (CMD_STREAM_DATA # wire c @ bs) s" "stripInitialized s" "streamMode s"
  shows "loop s =
      (if streamIndex s < ledCount s \<and> streamIndex s < streamCount s then
         sendResponse RESP_OK
           ((strip_set_rgbw (unat (streamIndex s)) (applyBrightness s c)
               (consume 4 (consume (Suc 0) s)))\<lparr>streamIndex := streamIndex s + 1\<rparr>)
       else sendError ERR_OUT_OF_RANGE (consume 4 (consume (Suc 0) s)))"
    and "buffered bs (loop s)"
proof -
  have p1: "ready 4 (clock (consume (Suc 0) s) + 1000) (consume (Suc 0) s)"
    by (rule buffered_loop_payload(1) [OF assms(1)]) (simp add: wire_def)
  have p2: "payload 4 (consume (Suc 0) s) = wire c"
    using buffered_loop_payload(2) [OF assms(1), of 4] by (simp add: wire_def)
  have p3: "buffered bs (consume 4 (consume (Suc 0) s))"
    using buffered_loop_payload(3) [OF assms(1), of 4] by (simp add: wire_def)
  have i: "stripInitialized (consume (Suc 0) s)" "streamMode (consume (Suc 0) s)"
    using assms(2,3) by simp_all
  have "processCommand CMD_STREAM_DATA (consume (Suc 0) s) = cmdStreamData (consume (Suc 0) s)"
    by (simp add: processCommand_def)
  then show 1: "loop s =
      (if streamIndex s < ledCount s \<and> streamIndex s < streamCount s then
         sendResponse RESP_OK
           ((strip_set_rgbw (unat (streamIndex s)) (applyBrightness s c)
               (consume 4 (consume (Suc 0) s)))\<lparr>streamIndex := streamIndex s + 1\<rparr>)
       else sendError ERR_OUT_OF_RANGE (consume 4 (consume (Suc 0) s)))"
    by (simp add: loop_buffered [OF assms(1)] cmdStreamData_eq [OF i p1] p2 wire_def)
  show "buffered bs (loop s)"
    using p3 by (simp add: 1)
qed

lemma stream_step:
  assumes "buffered (CMD_STREAM_DATA # wire c @ bs) s" "stripInitialized s" "streamMode s"
    and "ledStrip s = Some st" "streamIndex s < 5" "streamCount s = 5" "5 \<le> ledCount s"
  shows "buffered bs (loop s)" "stripInitialized (loop s)" "streamMode (loop s)"
    "ledStrip (loop s) = Some (st\<lparr>pixels := (pixels st)[unat (streamIndex s) := applyBrightness s c]\<rparr>)"
    "streamIndex (loop s) = streamIndex s + 1" "streamCount (loop s) = 5"
    "ledCount (loop s) = ledCount s" "tx (loop s) = tx s @ [RESP_OK]"
    "frames (loop s) = frames s" "globalBrightness (loop s) = globalBrightness s"
proof -
  note l = loop_stream_data [OF assms(1,2,3)]
  have ok: "streamIndex s < ledCount s \<and> streamIndex s < streamCount s"
    using assms(5,6,7) by auto
  show "buffered bs (loop s)" by (rule l(2))
  show "stripInitialized (loop s)" "streamMode (loop s)"
    "ledStrip (loop s) = Some (st\<lparr>pixels := (pixels st)[unat (streamIndex s) := applyBrightness s c]\<rparr>)"
    "streamIndex (loop s) = streamIndex s + 1" "streamCount (loop s) = 5"
    "ledCount (loop s) = ledCount s" "tx (loop s) = tx s @ [RESP_OK]"
    "frames (loop s) = frames s" "globalBrightness (loop s) = globalBrightness s"
    using ok assms(2,3,4,6) by (simp_all add: l(1) strip_set_rgbw_Some)
qed



section \<open>The gradient\<close>

lemma sdiv_nonneg: "0 \<le> k \<Longrightarrow> 0 < n \<Longrightarrow> k sdiv n = k div n" for k n :: int
  by (simp add: signed_divide_int_def sgn_if)

lemma sdiv_nonpos: "k \<le> 0 \<Longrightarrow> 0 < n \<Longrightarrow> k sdiv n = - ((- k) div n)" for k n :: int
  by (simp add: signed_divide_int_def sgn_if)

lemma scaled_step_bounds:
  fixes d i n :: int
  assumes "0 \<le> d" "0 \<le> i" "i \<le> n" "0 < n"
  shows "0 \<le> (d * i) div n \<and> (d * i) div n \<le> d"
proof -
  have "d * i \<le> d * n" using assms by (intro mult_left_mono) auto
  then have "(d * i) div n \<le> (d * n) div n" by (rule zdiv_mono1) (use assms in auto)
  moreover have "0 \<le> d * i" using assms by simp
  ultimately show ?thesis using assms by (simp add: pos_imp_zdiv_nonneg_iff)
qed

lemma spec_gradient_between:
  assumes "0 < n" "i \<le> n"
  shows "0 \<le> spec_gradient A B i n \<and> spec_gradient A B i n < 256"
proof -
  have a: "0 \<le> uint A" "uint A < 256" "0 \<le> uint B" "uint B < 256"
    using uint_lt2p [of A] uint_lt2p [of B] by simp_all
  have n: "(0::int) < int n" "(0::int) \<le> int i" "int i \<le> int n" using assms by simp_all
  have b0: "0 \<le> uint B" "0 \<le> uint A" by simp_all
  show ?thesis
  proof (cases "uint A \<le> uint B")
    case True
    then have d: "0 \<le> uint B - uint A" by simp
    have nn: "0 \<le> (uint B - uint A) * int i" using d by simp
    have "spec_gradient A B i n = uint A + ((uint B - uint A) * int i) div int n"
      by (simp add: spec_gradient_def sdiv_nonneg [OF nn n(1)])
    with scaled_step_bounds [OF d n(2,3,1)] a b0 show ?thesis by linarith
  next
    case False
    then have d: "0 \<le> uint A - uint B" by simp
    have np: "(uint B - uint A) * int i \<le> 0"
      using False by (simp add: mult_le_0_iff)
    have eq: "- ((uint B - uint A) * int i) = (uint A - uint B) * int i"
      by (simp add: algebra_simps)
    have "spec_gradient A B i n = uint A - ((uint A - uint B) * int i) div int n"
      by (simp add: spec_gradient_def sdiv_nonpos [OF np n(1)] eq)
    with scaled_step_bounds [OF d n(2,3,1)] a b0 show ?thesis by linarith
  qed
qed

lemma uint_lerp8:
  assumes "0 < n" "i \<le> n"
  shows "uint (lerp8 i n A B) = spec_gradient A B i n"
proof -
  have "lerp8 i n A B = word_of_int (spec_gradient A B i n)"
    by (simp add: lerp8_def map_long_def spec_gradient_def mult.commute)
  moreover have "0 \<le> spec_gradient A B i n" "spec_gradient A B i n < 2 ^ LENGTH(8)"
    using spec_gradient_between [OF assms, of A B] by simp_all
  ultimately show ?thesis by (simp add: uint_word_of_int take_bit_int_eq_self)
qed

lemma gradientStep_eq:
  "gradientStep a n c1 c2 i s =
     strip_set_rgbw (a + i) (applyBrightness s (gradientColor n c1 c2 i)) s"
  by (simp add: gradientStep_def)

lemma fold_gradientStep:
  "fold (gradientStep a n c1 c2) js s =
     fold (\<lambda>i. strip_set_rgbw (a + i) (applyBrightness s (gradientColor n c1 c2 i))) js s"
proof (induction js arbitrary: s)
  case Nil
  then show ?case by simp
next
  case (Cons j js)
  let ?s' = "strip_set_rgbw (a + j) (applyBrightness s (gradientColor n c1 c2 j)) s"
  have "applyBrightness ?s' = applyBrightness s"
    by (rule ext) (simp add: applyBrightness_def)
  with Cons.IH [of ?s'] show ?case by (simp add: gradientStep_eq)
qed


lemma gradientColor_channels:
  assumes "0 < n" "i \<le> n"
  shows "uint (r (gradientColor n A B i)) = spec_gradient (r A) (r B) i n"
    and "uint (g (gradientColor n A B i)) = spec_gradient (g A) (g B) i n"
    and "uint (b (gradientColor n A B i)) = spec_gradient (b A) (b B) i n"
    and "uint (w (gradientColor n A B i)) = spec_gradient (w A) (w B) i n"
  using assms by (simp_all add: gradientColor_def uint_lerp8)

lemma fill_gradient_store:
  assumes "stripInitialized s" "ledStrip s = Some st"
    and "ready 12 (clock s + 1000) s"
    and "payload 12 s = [shi, slo, ehi, elo] @ wire A @ wire B"
    and "word16 shi slo \<le> word16 ehi elo" "word16 ehi elo < ledCount s"
    and "start = unat (word16 shi slo)" "n = unat (word16 ehi elo) - start"
    and "ps = fold (\<lambda>i ps. ps[start + i := applyBrightness s (gradientColor n A B i)])
                [0..<Suc n] (pixels st)"
  shows "ledStrip (processCommand CMD_FILL_GRADIENT s) = Some (st\<lparr>pixels := ps\<rparr>)"
    and "frames (processCommand CMD_FILL_GRADIENT s) = frames s @ [ps]"
    and "tx (processCommand CMD_FILL_GRADIENT s) = tx s @ [RESP_OK]"
proof -
  have c: "processCommand CMD_FILL_GRADIENT s = cmdFillGradient s"
    by (simp add: processCommand_def)
  have p: "payload 12 s ! 0 = shi" "payload 12 s ! 1 = slo" "payload 12 s ! 2 = ehi"
    "payload 12 s ! 3 = elo"
    "\<lparr>r = payload 12 s ! 4, g = payload 12 s ! 5, b = payload 12 s ! 6, w = payload 12 s ! 7\<rparr> = A"
    "\<lparr>r = payload 12 s ! 8, g = payload 12 s ! 9, b = payload 12 s ! 10, w = payload 12 s ! 11\<rparr> = B"
    by (simp_all add: assms(4) wire_def)
  have n: "unat (word16 ehi elo - word16 shi slo) = n"
    using assms(5) by (simp add: assms(7,8) unat_sub)
  have st: "ledStrip (consume 12 s) = Some st" using assms(2) by simp
  have fold_eq: "fold (gradientStep start n A B) [0..<Suc n] (consume 12 s)
      = (consume 12 s)\<lparr>ledStrip := Some (st\<lparr>pixels := ps\<rparr>)\<rparr>"
    unfolding fold_gradientStep
    using fold_strip_set_rgbw [OF st, of "\<lambda>i. start + i"
        "\<lambda>i. applyBrightness s (gradientColor n A B i)" "[0..<Suc n]"]
    by (simp add: assms(9))
  have e: "cmdFillGradient s = sendResponse RESP_OK (strip_sync
      (fold (gradientStep start n A B) [0..<Suc n] (consume 12 s)))"
    unfolding cmdFillGradient_eq [OF assms(1,3)] p n
    using assms(5,6) by (simp add: assms(7) del: upt_Suc fold_simps)
  show "ledStrip (processCommand CMD_FILL_GRADIENT s) = Some (st\<lparr>pixels := ps\<rparr>)"
    "frames (processCommand CMD_FILL_GRADIENT s) = frames s @ [ps]"
    "tx (processCommand CMD_FILL_GRADIENT s) = tx s @ [RESP_OK]"
    unfolding c e fold_eq by (simp_all add: strip_sync_def)
qed

text \<open>
  C5 (as amended). On an initialized store, for a fill_gradient whose payload has
  arrived, with start \<le> end and end below the LED count: the store keeps its length and
  differs from the old one at most at the indices start .. end; each index start + i
  that the allocated strip has holds the brightness-scaled colour of step i, and for an
  index at or beyond the length the strip was allocated with (which happens once
  set_led_count has raised the LED count above it and no init_strip has followed)
  nothing is stored. The buffer is committed once and the answer is OK. The colour of
  step i is computed from the unscaled wire colours A and B: for end > start each
  channel is A + (B - A) * i / (end - start) with truncating division (a value that
  fits the byte, so nothing wraps), and brightness is applied to that value, once. For
  start = end the colour of the single step is A itself, whatever B is.
\<close>

theorem fill_gradient_interpolates:
  assumes "stripInitialized s" "ledStrip s = Some st"
    and "ready 12 (clock s + 1000) s"
    and "payload 12 s = [shi, slo, ehi, elo] @ wire A @ wire B"
    and "word16 shi slo \<le> word16 ehi elo" "word16 ehi elo < ledCount s"
    and "start = unat (word16 shi slo)" "n = unat (word16 ehi elo) - start"
  shows
    "(\<exists>ps. ledStrip (processCommand CMD_FILL_GRADIENT s) = Some (st\<lparr>pixels := ps\<rparr>)
        \<and> length ps = length (pixels st)
        \<and> (\<forall>i\<le>n. start + i < length ps \<longrightarrow>
              ps ! (start + i) = applyBrightness s (gradientColor n A B i))
        \<and> (\<forall>k<length ps. k < start \<or> start + n < k \<longrightarrow> ps ! k = pixels st ! k)
        \<and> frames (processCommand CMD_FILL_GRADIENT s) = frames s @ [ps]
        \<and> tx (processCommand CMD_FILL_GRADIENT s) = tx s @ [RESP_OK])
     \<and> (\<forall>i\<le>n. 0 < n \<longrightarrow>
          uint (r (gradientColor n A B i)) = spec_gradient (r A) (r B) i n
        \<and> uint (g (gradientColor n A B i)) = spec_gradient (g A) (g B) i n
        \<and> uint (b (gradientColor n A B i)) = spec_gradient (b A) (b B) i n
        \<and> uint (w (gradientColor n A B i)) = spec_gradient (w A) (w B) i n)
     \<and> (n = 0 \<longrightarrow> gradientColor n A B 0 = A)"
proof -
  define ps where "ps = fold (\<lambda>i ps. ps[start + i := applyBrightness s (gradientColor n A B i)])
                [0..<Suc n] (pixels st)"
  note fs = fill_gradient_store [OF assms(1,2,3,4,5,6,7,8) ps_def]
  have len: "length ps = length (pixels st)" by (simp add: ps_def)
  have nth: "ps ! k = (if start \<le> k \<and> k < start + Suc n
      then applyBrightness s (gradientColor n A B (k - start)) else pixels st ! k)"
    if "k < length (pixels st)" for k
    unfolding ps_def by (rule nth_fold_update_shift [OF that])
  have inside: "\<forall>i\<le>n. start + i < length ps \<longrightarrow>
      ps ! (start + i) = applyBrightness s (gradientColor n A B i)"
    by (simp add: len nth)
  have outside: "\<forall>k<length ps. k < start \<or> start + n < k \<longrightarrow> ps ! k = pixels st ! k"
    by (auto simp: len nth)
  have 1: "\<exists>ps. ledStrip (processCommand CMD_FILL_GRADIENT s) = Some (st\<lparr>pixels := ps\<rparr>)
        \<and> length ps = length (pixels st)
        \<and> (\<forall>i\<le>n. start + i < length ps \<longrightarrow>
              ps ! (start + i) = applyBrightness s (gradientColor n A B i))
        \<and> (\<forall>k<length ps. k < start \<or> start + n < k \<longrightarrow> ps ! k = pixels st ! k)
        \<and> frames (processCommand CMD_FILL_GRADIENT s) = frames s @ [ps]
        \<and> tx (processCommand CMD_FILL_GRADIENT s) = tx s @ [RESP_OK]"
    using fs len inside outside by blast
  have 2: "\<forall>i\<le>n. 0 < n \<longrightarrow>
          uint (r (gradientColor n A B i)) = spec_gradient (r A) (r B) i n
        \<and> uint (g (gradientColor n A B i)) = spec_gradient (g A) (g B) i n
        \<and> uint (b (gradientColor n A B i)) = spec_gradient (b A) (b B) i n
        \<and> uint (w (gradientColor n A B i)) = spec_gradient (w A) (w B) i n"
    by (simp add: gradientColor_channels)
  have 3: "n = 0 \<longrightarrow> gradientColor n A B 0 = A"
    by (simp add: gradientColor_def)
  from 1 2 3 show ?thesis by (intro conjI)
qed

lemma word16_0_9: "word16 0 9 = 9"
  by (simp add: word16_def)

lemma word16_0_0: "word16 0 0 = 0"
  by (simp add: word16_def)

theorem fill_gradient_interpolates_witness:
  "stripInitialized (booted (at_once ([0, 0, 0, 9] @ wire off
      @ wire \<lparr>r = 255, g = 255, b = 255, w = 255\<rparr>)))
   \<and> ready 12 (clock (booted (at_once ([0, 0, 0, 9] @ wire off
          @ wire \<lparr>r = 255, g = 255, b = 255, w = 255\<rparr>))) + 1000)
        (booted (at_once ([0, 0, 0, 9] @ wire off
          @ wire \<lparr>r = 255, g = 255, b = 255, w = 255\<rparr>)))
   \<and> word16 0 0 \<le> word16 0 9 \<and> word16 0 9 < DEFAULT_LED_COUNT
   \<and> unat (word16 0 9) < length (replicate 107 off)
   \<and> tx (processCommand CMD_FILL_GRADIENT (booted (at_once ([0, 0, 0, 9] @ wire off
          @ wire \<lparr>r = 255, g = 255, b = 255, w = 255\<rparr>)))) = [RESP_OK]
   \<and> uint (r (gradientColor 9 off \<lparr>r = 255, g = 255, b = 255, w = 255\<rparr> 3)) = 85
   \<and> uint (r (gradientColor 9 off \<lparr>r = 255, g = 255, b = 255, w = 255\<rparr> 9)) = 255
   \<and> pixels (the (ledStrip (processCommand CMD_FILL_GRADIENT (booted (at_once ([0, 0, 0, 9]
          @ wire off @ wire \<lparr>r = 255, g = 255, b = 255, w = 255\<rparr>)))))) ! 3
       = \<lparr>r = 85, g = 85, b = 85, w = 85\<rparr>"
proof -
  let ?B = "\<lparr>r = 255, g = 255, b = 255, w = 255\<rparr>"
  let ?s = "booted (at_once ([0, 0, 0, 9] @ wire off @ wire ?B))"
  let ?st = "\<lparr>pixels = replicate 107 off, out_pin = DEFAULT_LED_PIN\<rparr>"
  have i: "stripInitialized ?s" "ledStrip ?s = Some ?st" by simp_all
  have r: "ready 12 (clock ?s + 1000) ?s"
    by (rule ready_booted) (simp add: wire_def)
  have p: "payload 12 ?s = [0, 0, 0, 9] @ wire off @ wire ?B"
    by (simp add: payload_booted wire_def)
  have o: "word16 0 0 \<le> word16 0 9" "word16 0 9 < ledCount ?s"
    by (simp_all add: word16_0_9 word16_0_0)
  have cap: "unat (word16 0 9) < length (replicate 107 off)"
    by (simp add: word16_0_9)
  have n: "(0::nat) = unat (word16 0 0)" "(9::nat) = unat (word16 0 9) - 0"
    by (simp_all add: word16_0_9 word16_0_0)
  note th = fill_gradient_interpolates [OF i r p o n]
  have t: "tx (processCommand CMD_FILL_GRADIENT ?s) = tx ?s @ [RESP_OK]"
    using th by blast
  have c: "uint (r (gradientColor 9 off ?B 3)) = spec_gradient (r off) (r ?B) 3 9"
    "uint (r (gradientColor 9 off ?B 9)) = spec_gradient (r off) (r ?B) 9 9"
    using th by simp_all
  have v: "spec_gradient (r off) (r ?B) 3 9 = 85" "spec_gradient (r off) (r ?B) 9 9 = 255"
    by (simp_all add: spec_gradient_def off_def signed_divide_int_def)
  from th obtain ps
    where A: "ledStrip (processCommand CMD_FILL_GRADIENT ?s) = Some (?st\<lparr>pixels := ps\<rparr>)"
      and len: "length ps = length (pixels ?st)"
      and B: "\<forall>i\<le>9. 0 + i < length ps \<longrightarrow>
        ps ! (0 + i) = applyBrightness ?s (gradientColor 9 off ?B i)"
    by blast
  have g3: "gradientColor 9 off ?B 3 = \<lparr>r = 85, g = 85, b = 85, w = 85\<rparr>"
    by (simp add: gradientColor_def lerp8_def map_long_def signed_divide_int_def off_def)
  have "ps ! 3 = applyBrightness ?s (gradientColor 9 off ?B 3)"
    using B [rule_format, of 3] len by simp
  then have px: "pixels (the (ledStrip (processCommand CMD_FILL_GRADIENT ?s))) ! 3
      = \<lparr>r = 85, g = 85, b = 85, w = 85\<rparr>"
    unfolding A g3 by (simp add: applyBrightness_def)
  have "tx (processCommand CMD_FILL_GRADIENT ?s) = [RESP_OK]
      \<and> uint (r (gradientColor 9 off ?B 3)) = 85 \<and> uint (r (gradientColor 9 off ?B 9)) = 255"
    unfolding t c v by simp
  with i(1) r o cap px show ?thesis by simp
qed

section \<open>The bulk update\<close>

lemma store_colours_eq:
  "i + length cs \<le> length ps \<Longrightarrow>
   store_colours i cs ps = take i ps @ cs @ drop (i + length cs) ps"
proof (induction cs arbitrary: i ps)
  case Nil
  then show ?case by simp
next
  case (Cons c cs)
  then have i: "i < length ps" by simp
  from Cons.IH [of "Suc i" "ps[i := c]"] Cons.prems
  have "store_colours (Suc i) cs (ps[i := c]) =
      take (Suc i) (ps[i := c]) @ cs @ drop (Suc i + length cs) ps"
    by simp
  moreover have "take (Suc i) (ps[i := c]) = take i ps @ [c]"
    using i by (simp add: take_Suc_conv_app_nth)
  ultimately show ?case by simp
qed

lemma length_colours [simp]: "length (colours k line) = k"
  by (induction k arbitrary: line) simp_all

lemma bulkLoop_done: "bulkLoop i i timeout startTime s = (True, s)"
  by (subst bulkLoop.simps) simp

lemma bulkLoop_step:
  assumes "4 \<le> length (rx s)" "latest (take 4 (rx s)) \<le> startTime + timeout"
    and "ledStrip s = Some st" "i < count"
  shows "bulkLoop i count timeout startTime s =
    bulkLoop (Suc i) count timeout (max (clock s) (latest (take 4 (rx s))))
      ((consume 4 s)\<lparr>ledStrip := Some (st\<lparr>pixels := (pixels st)
          [i := applyBrightness s \<lparr>r = snd (rx s ! 0), g = snd (rx s ! 1),
                 b = snd (rx s ! 2), w = snd (rx s ! 3)\<rparr>]\<rparr>)\<rparr>)"
proof -
  have rd: "ready 4 (startTime + timeout) s" using assms(1,2) by (simp add: ready_def)
  have w: "waitLoop 4 startTime timeout s = (True, fetched 0 4 s)"
    using waitLoop_ready [OF rd] by (simp add: fetched_def)
  have c: "readRGBW (fetched 0 4 s) =
      (\<lparr>r = payload 4 s ! 0, g = payload 4 s ! 1, b = payload 4 s ! 2, w = payload 4 s ! 3\<rparr>,
       fetched 4 4 s)"
    by (rule readRGBW_fetched [OF assms(1)]) simp_all
  have p: "payload 4 s ! 0 = snd (rx s ! 0)" "payload 4 s ! 1 = snd (rx s ! 1)"
    "payload 4 s ! 2 = snd (rx s ! 2)" "payload 4 s ! 3 = snd (rx s ! 3)"
    using assms(1) by (simp_all add: payload_nth)
  show ?thesis
    using assms(3,4) p
    by (subst bulkLoop.simps)
       (simp add: w c fetched_all strip_set_rgbw_Some millis_def)
qed

lemma bulkLoop_paced:
  assumes "paced k timeout (clock s) (rx s)" "ledStrip s = Some st"
  shows "bulkLoop i (i + k) timeout (clock s) s =
    (True, s\<lparr>ledStrip := Some (st\<lparr>pixels :=
                 store_colours i (map (applyBrightness s) (colours k (rx s))) (pixels st)\<rparr>),
             rx := drop (4 * k) (rx s),
             clock := finish k (clock s) (rx s)\<rparr>)"
  using assms
proof (induction k arbitrary: i s st)
  case 0
  then show ?case by (simp add: bulkLoop_done)
next
  case (Suc k)
  let ?c = "applyBrightness s \<lparr>r = snd (rx s ! 0), g = snd (rx s ! 1),
                 b = snd (rx s ! 2), w = snd (rx s ! 3)\<rparr>"
  let ?st = "st\<lparr>pixels := (pixels st)[i := ?c]\<rparr>"
  let ?s = "(consume 4 s)\<lparr>ledStrip := Some ?st\<rparr>"
  have a: "4 \<le> length (rx s)" "latest (take 4 (rx s)) \<le> clock s + timeout"
    "paced k timeout (max (clock s) (latest (take 4 (rx s)))) (drop 4 (rx s))"
    using Suc.prems(1) by simp_all
  have step: "bulkLoop i (i + Suc k) timeout (clock s) s =
      bulkLoop (Suc i) (Suc i + k) timeout (clock ?s) ?s"
    using bulkLoop_step [OF a(1,2) Suc.prems(2), of i "i + Suc k"] by simp
  have p: "paced k timeout (clock ?s) (rx ?s)" using a(3) by simp
  have st: "ledStrip ?s = Some ?st" by simp
  have ab: "applyBrightness ?s = applyBrightness s"
    by (rule ext) (simp add: applyBrightness_def)
  show ?case
    unfolding step Suc.IH [OF p st] ab
    by (simp add: add.commute)
qed


lemma ready_mono: "ready n d s \<Longrightarrow> d \<le> d' \<Longrightarrow> ready n d' s"
  by (simp add: ready_def)

lemma waitLoop_timeout:
  "\<not> ready n (max (clock s) (startTime + timeout + 1)) s \<Longrightarrow>
   waitLoop n startTime timeout s =
     (False, sendError ERR_TIMEOUT (s\<lparr>clock := max (clock s) (startTime + timeout + 1)\<rparr>))"
proof (induction n startTime timeout s rule: waitLoop.induct)
  case (1 count startTime timeout s)
  have nr: "\<not> ready count (clock s) s"
    using "1.prems" ready_mono [of count "clock s" s] by auto
  then have av: "Serial_available s < count" by (simp add: available_ge [symmetric])
  show ?case
  proof (cases "millis s - startTime > timeout")
    case True
    then have "max (clock s) (startTime + timeout + 1) = clock s"
      unfolding millis_def by arith
    with av True show ?thesis by (subst waitLoop.simps) simp
  next
    case False
    then have le: "clock s \<le> startTime + timeout" by (simp add: millis_def)
    have "\<not> ready count (max (clock (delay 1 s)) (startTime + timeout + 1)) (delay 1 s)"
      using "1.prems" le by (simp add: ready_def delay_def max_def)
    from "1.IH" [OF av False this] av False le show ?thesis
      by (subst waitLoop.simps) (simp add: delay_def max_def)
  qed
qed

lemma bulkLoop_timeout:
  assumes "\<not> ready 4 (clock s + timeout + 1) s" "0 < count"
  shows "bulkLoop 0 count timeout (clock s) s =
    (False, sendError ERR_TIMEOUT (s\<lparr>clock := clock s + timeout + 1\<rparr>))"
proof -
  have "waitLoop 4 (clock s) timeout s =
      (False, sendError ERR_TIMEOUT (s\<lparr>clock := clock s + timeout + 1\<rparr>))"
    using waitLoop_timeout [of 4 s "clock s" timeout] assms(1) by (simp add: max_def)
  with assms(2) show ?thesis by (subst bulkLoop.simps) simp
qed

lemma cmdBulkUpdate_eq:
  assumes "stripInitialized s" "ready 2 (clock s + 1000) s"
  shows "cmdBulkUpdate s =
    (if ledCount s < word16 (payload 2 s ! 0) (payload 2 s ! 1)
     then sendError ERR_OUT_OF_RANGE (consume 2 s)
     else case bulkLoop 0 (unat (word16 (payload 2 s ! 0) (payload 2 s ! 1))) 1000
                 (clock (consume 2 s)) (sendResponse RESP_OK (consume 2 s)) of
            (False, s4) \<Rightarrow> s4
          | (True, s4) \<Rightarrow> sendResponse RESP_OK (strip_sync s4))"
proof -
  note len = ready_length [OF assms(2)]
  have w: "waitForBytes 2 1000 s = (True, fetched 0 2 s)"
    by (rule waitForBytes_fetched [OF assms(2)])
  have r0: "read16 (fetched 0 2 s) = (word16 (payload 2 s ! 0) (payload 2 s ! 1), fetched 2 2 s)"
    by (rule read16_fetched [OF len]) simp_all
  show ?thesis
    unfolding cmdBulkUpdate_def using assms
    by (simp add: w r0 fetched_all Let_def millis_def)
qed

lemma bulk_update_done:
  assumes "stripInitialized s" "ledStrip s = Some st" "ready 2 (clock s + 1000) s"
    and "payload 2 s = [hi, lo]" "word16 hi lo \<le> ledCount s"
    and "paced (unat (word16 hi lo)) 1000 (clock (consume 2 s)) (drop 2 (rx s))"
  shows "cmdBulkUpdate s =
    sendResponse RESP_OK (strip_sync
      ((sendResponse RESP_OK (consume 2 s))
        \<lparr>ledStrip := Some (st\<lparr>pixels := store_colours 0
             (map (applyBrightness s) (colours (unat (word16 hi lo)) (drop 2 (rx s))))
             (pixels st)\<rparr>),
         rx := drop (4 * unat (word16 hi lo)) (drop 2 (rx s)),
         clock := finish (unat (word16 hi lo)) (clock (consume 2 s)) (drop 2 (rx s))\<rparr>))"
proof -
  let ?s = "sendResponse RESP_OK (consume 2 s)"
  have p: "paced (unat (word16 hi lo)) 1000 (clock ?s) (rx ?s)" using assms(6) by simp
  have st: "ledStrip ?s = Some st" using assms(2) by simp
  have ab: "applyBrightness ?s = applyBrightness s"
    by (rule ext) (simp add: applyBrightness_def)
  have c: "clock ?s = clock (consume 2 s)" "rx ?s = drop 2 (rx s)" by simp_all
  have b: "bulkLoop 0 (unat (word16 hi lo)) 1000 (clock (consume 2 s)) ?s =
    (True, ?s\<lparr>ledStrip := Some (st\<lparr>pixels := store_colours 0
             (map (applyBrightness s) (colours (unat (word16 hi lo)) (drop 2 (rx s))))
             (pixels st)\<rparr>),
         rx := drop (4 * unat (word16 hi lo)) (drop 2 (rx s)),
         clock := finish (unat (word16 hi lo)) (clock (consume 2 s)) (drop 2 (rx s))\<rparr>)"
    using bulkLoop_paced [OF p st, of 0] unfolding ab c by simp
  show ?thesis
    unfolding cmdBulkUpdate_eq [OF assms(1,3)] using assms(4,5) b
    by (simp add: not_less [symmetric])
qed



lemma word16_1_0: "word16 1 0 = 256"
  by (simp add: word16_def)

lemma word16_0_1: "word16 0 1 = 1"
  by (simp add: word16_def)

lemma word16_0_2: "word16 0 2 = 2"
  by (simp add: word16_def)


section \<open>Brightness on the write paths\<close>

lemma ledStrip_written:
  "ledStrip s = Some st \<Longrightarrow>
   ledStrip (strip_set_rgbw i c (consume n s)) = Some (st\<lparr>pixels := (pixels st)[i := c]\<rparr>)"
  by (simp add: strip_set_rgbw_Some)

lemma ledStrip_folded:
  assumes "ledStrip s = Some st"
  shows "ledStrip (fold (\<lambda>i. strip_set_rgbw (idx i) (f i)) js (consume n s)) =
    Some (st\<lparr>pixels := fold (\<lambda>i ps. ps[idx i := f i]) js (pixels st)\<rparr>)"
proof -
  have "ledStrip (consume n s) = Some st" using assms by simp
  from fold_strip_set_rgbw [OF this, of idx f js] show ?thesis by simp
qed

lemma store_set_pixel_rgbw:
  assumes "stripInitialized s" "ledStrip s = Some st" "ready 6 (clock s + 1000) s"
    and "payload 6 s = [hi, lo, cr, cg, cb, cw]" "word16 hi lo < ledCount s"
  shows "ledStrip (processCommand CMD_SET_PIXEL_RGBW s) =
      Some (st\<lparr>pixels := (pixels st)[unat (word16 hi lo) :=
        applyBrightness s \<lparr>r = cr, g = cg, b = cb, w = cw\<rparr>]\<rparr>)"
    and "ledStrip (processCommand CMD_BUFFER_PIXEL s) =
      Some (st\<lparr>pixels := (pixels st)[unat (word16 hi lo) :=
        applyBrightness s \<lparr>r = cr, g = cg, b = cb, w = cw\<rparr>]\<rparr>)"
proof -
  have c: "processCommand CMD_SET_PIXEL_RGBW s = cmdSetPixelRGBW s"
    "processCommand CMD_BUFFER_PIXEL s = cmdBufferPixel s"
    by (simp_all add: processCommand_def)
  have p: "payload 6 s ! 0 = hi" "payload 6 s ! 1 = lo" "payload 6 s ! 2 = cr"
    "payload 6 s ! 3 = cg" "payload 6 s ! 4 = cb" "payload 6 s ! 5 = cw"
    by (simp_all add: assms(4))
  show "ledStrip (processCommand CMD_SET_PIXEL_RGBW s) =
      Some (st\<lparr>pixels := (pixels st)[unat (word16 hi lo) :=
        applyBrightness s \<lparr>r = cr, g = cg, b = cb, w = cw\<rparr>]\<rparr>)"
    unfolding c cmdSetPixelRGBW_eq [OF assms(1,3)] p
    using assms(5) by (simp add: ledStrip_written [OF assms(2)])
  show "ledStrip (processCommand CMD_BUFFER_PIXEL s) =
      Some (st\<lparr>pixels := (pixels st)[unat (word16 hi lo) :=
        applyBrightness s \<lparr>r = cr, g = cg, b = cb, w = cw\<rparr>]\<rparr>)"
    unfolding c cmdBufferPixel_eq [OF assms(1,3)] p
    using assms(5) by (simp add: ledStrip_written [OF assms(2)])
qed


lemma store_set_pixel_rgb:
  assumes "stripInitialized s" "ledStrip s = Some st" "ready 5 (clock s + 1000) s"
    and "payload 5 s = [hi, lo, cr, cg, cb]" "word16 hi lo < ledCount s"
  shows "ledStrip (processCommand CMD_SET_PIXEL_RGB s) =
      Some (st\<lparr>pixels := (pixels st)[unat (word16 hi lo) :=
        applyBrightness s \<lparr>r = cr, g = cg, b = cb, w = 0\<rparr>]\<rparr>)"
proof -
  have c: "processCommand CMD_SET_PIXEL_RGB s = cmdSetPixelRGB s"
    by (simp add: processCommand_def)
  have p: "payload 5 s ! 0 = hi" "payload 5 s ! 1 = lo" "payload 5 s ! 2 = cr"
    "payload 5 s ! 3 = cg" "payload 5 s ! 4 = cb"
    by (simp_all add: assms(4))
  show ?thesis
    unfolding c cmdSetPixelRGB_eq [OF assms(1,3)] p
    using assms(5) by (simp add: ledStrip_written [OF assms(2)])
qed

lemma store_set_pixel_w:
  assumes "stripInitialized s" "ledStrip s = Some st" "ready 3 (clock s + 1000) s"
    and "payload 3 s = [hi, lo, cw]" "word16 hi lo < ledCount s"
  shows "ledStrip (processCommand CMD_SET_PIXEL_W s) =
      Some (st\<lparr>pixels := (pixels st)[unat (word16 hi lo) :=
        applyBrightness s \<lparr>r = 0, g = 0, b = 0, w = cw\<rparr>]\<rparr>)"
proof -
  have c: "processCommand CMD_SET_PIXEL_W s = cmdSetPixelW s"
    by (simp add: processCommand_def)
  have p: "payload 3 s ! 0 = hi" "payload 3 s ! 1 = lo" "payload 3 s ! 2 = cw"
    by (simp_all add: assms(4))
  show ?thesis
    unfolding c cmdSetPixelW_eq [OF assms(1,3)] p
    using assms(5) by (simp add: ledStrip_written [OF assms(2)])
qed

lemma store_set_range:
  assumes "stripInitialized s" "ledStrip s = Some st" "ready 8 (clock s + 1000) s"
    and "payload 8 s = [hi, lo, ehi, elo, cr, cg, cb, cw]"
    and "word16 hi lo \<le> word16 ehi elo" "word16 ehi elo < ledCount s"
  shows "ledStrip (processCommand CMD_SET_RANGE_RGBW s) =
      Some (st\<lparr>pixels := fold (\<lambda>i ps. ps[i := applyBrightness s \<lparr>r = cr, g = cg, b = cb, w = cw\<rparr>])
        [unat (word16 hi lo)..<Suc (unat (word16 ehi elo))] (pixels st)\<rparr>)"
proof -
  have c: "processCommand CMD_SET_RANGE_RGBW s = cmdSetRangeRGBW s"
    by (simp add: processCommand_def)
  have p: "payload 8 s ! 0 = hi" "payload 8 s ! 1 = lo" "payload 8 s ! 2 = ehi"
    "payload 8 s ! 3 = elo" "payload 8 s ! 4 = cr" "payload 8 s ! 5 = cg"
    "payload 8 s ! 6 = cb" "payload 8 s ! 7 = cw"
    by (simp_all add: assms(4))
  have ok: "word16 hi lo < ledCount s" using assms(5,6) by simp
  show ?thesis
    unfolding c cmdSetRangeRGBW_eq [OF assms(1,3)] p
    using assms(5,6) ok
    by (simp add: ledStrip_folded [OF assms(2), of "\<lambda>i. i"] del: upt_Suc fold_simps)
qed

lemma store_set_all:
  assumes "stripInitialized s" "ledStrip s = Some st" "ready 4 (clock s + 1000) s"
    and "payload 4 s = [cr, cg, cb, cw]"
  shows "ledStrip (processCommand CMD_SET_ALL_RGBW s) =
      Some (st\<lparr>pixels := fold (\<lambda>i ps. ps[i := applyBrightness s \<lparr>r = cr, g = cg, b = cb, w = cw\<rparr>])
        [0..<unat (ledCount s)] (pixels st)\<rparr>)"
proof -
  have c: "processCommand CMD_SET_ALL_RGBW s = cmdSetAllRGBW s"
    by (simp add: processCommand_def)
  have p: "payload 4 s ! 0 = cr" "payload 4 s ! 1 = cg" "payload 4 s ! 2 = cb"
    "payload 4 s ! 3 = cw"
    by (simp_all add: assms(4))
  show ?thesis
    unfolding c cmdSetAllRGBW_eq [OF assms(1,3)] p
    by (simp add: ledStrip_folded [OF assms(2), of "\<lambda>i. i"] del: upt_Suc fold_simps)
qed

lemma store_stream_data:
  assumes "stripInitialized s" "ledStrip s = Some st" "ready 4 (clock s + 1000) s"
    and "payload 4 s = [cr, cg, cb, cw]"
    and "streamMode s" "streamIndex s < ledCount s" "streamIndex s < streamCount s"
  shows "ledStrip (processCommand CMD_STREAM_DATA s) =
      Some (st\<lparr>pixels := (pixels st)[unat (streamIndex s) :=
        applyBrightness s \<lparr>r = cr, g = cg, b = cb, w = cw\<rparr>]\<rparr>)"
proof -
  have c: "processCommand CMD_STREAM_DATA s = cmdStreamData s"
    by (simp add: processCommand_def)
  have p: "payload 4 s ! 0 = cr" "payload 4 s ! 1 = cg" "payload 4 s ! 2 = cb"
    "payload 4 s ! 3 = cw"
    by (simp_all add: assms(4))
  show ?thesis
    unfolding c cmdStreamData_eq [OF assms(1,5,3)] p
    using assms(6,7) by (simp add: ledStrip_written [OF assms(2)])
qed

lemma store_clear_all:
  assumes "stripInitialized s" "ledStrip s = Some st"
  shows "ledStrip (processCommand CMD_CLEAR_ALL s) =
      Some (st\<lparr>pixels := fold (\<lambda>i ps. ps[i := off]) [0..<unat (ledCount s)] (pixels st)\<rparr>)"
proof -
  have c: "processCommand CMD_CLEAR_ALL s = cmdClearAll s"
    by (simp add: processCommand_def)
  show ?thesis
    unfolding c cmdClearAll_def
    using assms(1) fold_strip_set_rgbw [OF assms(2), of "\<lambda>i. i" "\<lambda>i. off" "[0..<unat (ledCount s)]"]
    by (simp del: upt_Suc fold_simps)
qed

lemma store_fill_gradient:
  assumes "stripInitialized s" "ledStrip s = Some st" "ready 12 (clock s + 1000) s"
    and "payload 12 s = [hi, lo, ehi, elo, r A, g A, b A, w A, r B, g B, b B, w B]"
    and "word16 hi lo \<le> word16 ehi elo" "word16 ehi elo < ledCount s"
  shows "ledStrip (processCommand CMD_FILL_GRADIENT s) =
      Some (st\<lparr>pixels := fold (\<lambda>i ps. ps[unat (word16 hi lo) + i :=
            applyBrightness s
              (gradientColor (unat (word16 ehi elo) - unat (word16 hi lo)) A B i)])
        [0..<Suc (unat (word16 ehi elo) - unat (word16 hi lo))] (pixels st)\<rparr>)"
proof -
  have p: "payload 12 s = [hi, lo, ehi, elo] @ wire A @ wire B"
    by (simp add: assms(4) wire_def)
  show ?thesis
    by (rule fill_gradient_store(1) [OF assms(1,2,3) p assms(5,6) refl refl refl])
qed

lemma store_bulk_update:
  assumes "stripInitialized s" "ledStrip s = Some st" "ready 2 (clock s + 1000) s"
    and "payload 2 s = [hi, lo]" "word16 hi lo \<le> ledCount s"
    and "paced (unat (word16 hi lo)) 1000 (clock (consume 2 s)) (drop 2 (rx s))"
  shows "ledStrip (processCommand CMD_BULK_UPDATE s) =
      Some (st\<lparr>pixels := store_colours 0
        (map (applyBrightness s) (colours (unat (word16 hi lo)) (drop 2 (rx s))))
        (pixels st)\<rparr>)"
proof -
  have c: "processCommand CMD_BULK_UPDATE s = cmdBulkUpdate s"
    by (simp add: processCommand_def)
  show ?thesis
    unfolding c bulk_update_done [OF assms] by simp
qed


lemma applyBrightness_off [simp]: "applyBrightness s off = off"
  by (simp add: applyBrightness_def off_def scale8_def)

text \<open>
  C2. For every global brightness and every colour, each channel that
  \<open>applyBrightness\<close> returns is the floor of channel times brightness over 256, except at
  brightness 255, where nothing is scaled: at 255 the values 0, 127 and 255 stay as they
  are, and at 128 the value 255 becomes 127. Setting the brightness (whether its payload
  arrives or the wait times out) changes neither the pixel store nor what was committed:
  the scale never acts on stored pixels. It acts on each colour as it is written: on an
  initialized store, every write path that is given a colour (set_pixel in its three
  variants, buffer_pixel, set_range, set_all, stream_data, fill_gradient, bulk_update),
  its payload arrived and its index accepted, leaves a store that differs from the old
  one by list updates whose new values are \<open>applyBrightness\<close> of the colour received (for
  the gradient: of the interpolated colour), under the brightness in force when the
  command is processed. clear_all writes zeros, which every brightness leaves zero.
\<close>

theorem brightness_scaling:
  "unat (r (applyBrightness s c)) =
     (if globalBrightness s = 255 then unat (r c)
      else unat (r c) * unat (globalBrightness s) div 256)
   \<and> unat (g (applyBrightness s c)) =
     (if globalBrightness s = 255 then unat (g c)
      else unat (g c) * unat (globalBrightness s) div 256)
   \<and> unat (b (applyBrightness s c)) =
     (if globalBrightness s = 255 then unat (b c)
      else unat (b c) * unat (globalBrightness s) div 256)
   \<and> unat (w (applyBrightness s c)) =
     (if globalBrightness s = 255 then unat (w c)
      else unat (w c) * unat (globalBrightness s) div 256)
   \<and> applyBrightness (s\<lparr>globalBrightness := 255\<rparr>) \<lparr>r = 0, g = 127, b = 255, w = 255\<rparr>
       = \<lparr>r = 0, g = 127, b = 255, w = 255\<rparr>
   \<and> applyBrightness (s\<lparr>globalBrightness := 128\<rparr>) \<lparr>r = 255, g = 255, b = 255, w = 255\<rparr>
       = \<lparr>r = 127, g = 127, b = 127, w = 127\<rparr>
   \<and> ledStrip (processCommand CMD_BRIGHTNESS s) = ledStrip s
   \<and> frames (processCommand CMD_BRIGHTNESS s) = frames s
   \<and> (stripInitialized s \<and> ledStrip s = Some st \<longrightarrow>
        (ready 6 (clock s + 1000) s \<and> payload 6 s = [hi, lo, cr, cg, cb, cw]
           \<and> word16 hi lo < ledCount s \<longrightarrow>
         ledStrip (processCommand CMD_SET_PIXEL_RGBW s) =
           Some (st\<lparr>pixels := (pixels st)[unat (word16 hi lo) :=
             applyBrightness s \<lparr>r = cr, g = cg, b = cb, w = cw\<rparr>]\<rparr>)
         \<and> ledStrip (processCommand CMD_BUFFER_PIXEL s) =
           Some (st\<lparr>pixels := (pixels st)[unat (word16 hi lo) :=
             applyBrightness s \<lparr>r = cr, g = cg, b = cb, w = cw\<rparr>]\<rparr>))
      \<and> (ready 5 (clock s + 1000) s \<and> payload 5 s = [hi, lo, cr, cg, cb]
           \<and> word16 hi lo < ledCount s \<longrightarrow>
         ledStrip (processCommand CMD_SET_PIXEL_RGB s) =
           Some (st\<lparr>pixels := (pixels st)[unat (word16 hi lo) :=
             applyBrightness s \<lparr>r = cr, g = cg, b = cb, w = 0\<rparr>]\<rparr>))
      \<and> (ready 3 (clock s + 1000) s \<and> payload 3 s = [hi, lo, cw]
           \<and> word16 hi lo < ledCount s \<longrightarrow>
         ledStrip (processCommand CMD_SET_PIXEL_W s) =
           Some (st\<lparr>pixels := (pixels st)[unat (word16 hi lo) :=
             applyBrightness s \<lparr>r = 0, g = 0, b = 0, w = cw\<rparr>]\<rparr>))
      \<and> (ready 8 (clock s + 1000) s \<and> payload 8 s = [hi, lo, ehi, elo, cr, cg, cb, cw]
           \<and> word16 hi lo \<le> word16 ehi elo \<and> word16 ehi elo < ledCount s \<longrightarrow>
         ledStrip (processCommand CMD_SET_RANGE_RGBW s) =
           Some (st\<lparr>pixels :=
             fold (\<lambda>i ps. ps[i := applyBrightness s \<lparr>r = cr, g = cg, b = cb, w = cw\<rparr>])
               [unat (word16 hi lo)..<Suc (unat (word16 ehi elo))] (pixels st)\<rparr>))
      \<and> (ready 4 (clock s + 1000) s \<and> payload 4 s = [cr, cg, cb, cw] \<longrightarrow>
         ledStrip (processCommand CMD_SET_ALL_RGBW s) =
           Some (st\<lparr>pixels :=
             fold (\<lambda>i ps. ps[i := applyBrightness s \<lparr>r = cr, g = cg, b = cb, w = cw\<rparr>])
               [0..<unat (ledCount s)] (pixels st)\<rparr>))
      \<and> (ready 4 (clock s + 1000) s \<and> payload 4 s = [cr, cg, cb, cw]
           \<and> streamMode s \<and> streamIndex s < ledCount s \<and> streamIndex s < streamCount s \<longrightarrow>
         ledStrip (processCommand CMD_STREAM_DATA s) =
           Some (st\<lparr>pixels := (pixels st)[unat (streamIndex s) :=
             applyBrightness s \<lparr>r = cr, g = cg, b = cb, w = cw\<rparr>]\<rparr>))
      \<and> (ready 12 (clock s + 1000) s
           \<and> payload 12 s = [hi, lo, ehi, elo, r A, g A, b A, w A, r B, g B, b B, w B]
           \<and> word16 hi lo \<le> word16 ehi elo \<and> word16 ehi elo < ledCount s \<longrightarrow>
         ledStrip (processCommand CMD_FILL_GRADIENT s) =
           Some (st\<lparr>pixels :=
             fold (\<lambda>i ps. ps[unat (word16 hi lo) + i := applyBrightness s
                     (gradientColor (unat (word16 ehi elo) - unat (word16 hi lo)) A B i)])
               [0..<Suc (unat (word16 ehi elo) - unat (word16 hi lo))] (pixels st)\<rparr>))
      \<and> (ready 2 (clock s + 1000) s \<and> payload 2 s = [hi, lo] \<and> word16 hi lo \<le> ledCount s
           \<and> paced (unat (word16 hi lo)) 1000 (clock (consume 2 s)) (drop 2 (rx s)) \<longrightarrow>
         ledStrip (processCommand CMD_BULK_UPDATE s) =
           Some (st\<lparr>pixels := store_colours 0
             (map (applyBrightness s) (colours (unat (word16 hi lo)) (drop 2 (rx s))))
             (pixels st)\<rparr>))
      \<and> ledStrip (processCommand CMD_CLEAR_ALL s) =
           Some (st\<lparr>pixels := fold (\<lambda>i ps. ps[i := off]) [0..<unat (ledCount s)] (pixels st)\<rparr>)
      \<and> applyBrightness s off = off)"
proof -
  have sc: "scale8 128 255 = 127"
    by (simp add: word_eq_iff_unsigned [where ?'a = nat] unat_scale8)
  have keep: "ledStrip (cmdSetBrightness s) = ledStrip s" "frames (cmdSetBrightness s) = frames s"
    by (simp_all add: cmdSetBrightness_def split_def Let_def split: bool.splits)
  have br: "processCommand CMD_BRIGHTNESS s = cmdSetBrightness s"
    by (simp add: processCommand_def)
  show ?thesis
    unfolding br keep applyBrightness_off
    by (intro conjI impI; (elim conjE)?;
        ((rule store_set_pixel_rgbw store_set_pixel_rgb store_set_pixel_w store_set_range
            store_set_all store_stream_data store_fill_gradient store_bulk_update
            store_clear_all; assumption)
         | simp add: applyBrightness_def u8_less_255 unat_scale8 sc))
qed


lemma loop_set_brightness:
  assumes "buffered (CMD_BRIGHTNESS # x # bs) s"
  shows "loop s = sendResponse RESP_OK
      ((consume (Suc 0) (consume (Suc 0) s))\<lparr>globalBrightness := x\<rparr>)"
    and "buffered bs (loop s)"
proof -
  have p1: "ready 1 (clock (consume (Suc 0) s) + 1000) (consume (Suc 0) s)"
    by (rule buffered_loop_payload(1) [OF assms(1)]) simp
  have p2: "payload 1 (consume (Suc 0) s) = [x]"
    using buffered_loop_payload(2) [OF assms(1), of 1] by simp
  have p3: "buffered bs (consume (Suc 0) (consume (Suc 0) s))"
    using buffered_loop_payload(3) [OF assms(1), of 1] by simp
  have "processCommand CMD_BRIGHTNESS (consume (Suc 0) s) = cmdSetBrightness (consume (Suc 0) s)"
    by (simp add: processCommand_def)
  then show 1: "loop s = sendResponse RESP_OK
      ((consume (Suc 0) (consume (Suc 0) s))\<lparr>globalBrightness := x\<rparr>)"
    using p2 by (simp add: loop_buffered [OF assms(1)] cmdSetBrightness_eq [OF p1])
  have "buffered bs ((consume (Suc 0) (consume (Suc 0) s))\<lparr>globalBrightness := x\<rparr>)
      = buffered bs (consume (Suc 0) (consume (Suc 0) s))"
    by (rule buffered_cong) simp_all
  with p3 show "buffered bs (loop s)" by (simp add: 1)
qed

lemma scale8_128:
  "scale8 128 0 = 0" "scale8 128 1 = 0" "scale8 128 2 = 1" "scale8 128 3 = 1"
  "scale8 128 8 = 4" "scale8 128 16 = 8" "scale8 128 32 = 16" "scale8 128 64 = 32"
  "scale8 128 100 = 50" "scale8 128 255 = 127"
  by (simp_all add: word_eq_iff_unsigned [where ?'a = nat] unat_scale8)


lemma word16_0_3: "word16 0 3 = 3"
  by (simp add: word16_def)

theorem brightness_scaling_witness:
  "globalBrightness (loop (loop (booted (at_once
        [CMD_BRIGHTNESS, 128, CMD_STREAM_START, 0, 5, 0, 2, 0, 3, 255, 100, 1, 0, 8, 16, 32, 64])))) = 128
   \<and> ledStrip (processCommand CMD_SET_PIXEL_RGBW
      (loop (loop (booted (at_once
        [CMD_BRIGHTNESS, 128, CMD_STREAM_START, 0, 5, 0, 2, 0, 3, 255, 100, 1, 0, 8, 16, 32, 64])))))
       = Some \<lparr>pixels = (replicate 107 off)[2 := \<lparr>r = 0, g = 1, b = 127, w = 50\<rparr>], out_pin = DEFAULT_LED_PIN\<rparr>
   \<and> ledStrip (processCommand CMD_BUFFER_PIXEL
      (loop (loop (booted (at_once
        [CMD_BRIGHTNESS, 128, CMD_STREAM_START, 0, 5, 0, 2, 0, 3, 255, 100, 1, 0, 8, 16, 32, 64])))))
       = Some \<lparr>pixels = (replicate 107 off)[2 := \<lparr>r = 0, g = 1, b = 127, w = 50\<rparr>], out_pin = DEFAULT_LED_PIN\<rparr>
   \<and> ledStrip (processCommand CMD_SET_PIXEL_RGB
      (loop (loop (booted (at_once
        [CMD_BRIGHTNESS, 128, CMD_STREAM_START, 0, 5, 0, 2, 0, 3, 255, 100, 1, 0, 8, 16, 32, 64])))))
       = Some \<lparr>pixels = (replicate 107 off)[2 := \<lparr>r = 0, g = 1, b = 127, w = 0\<rparr>], out_pin = DEFAULT_LED_PIN\<rparr>
   \<and> ledStrip (processCommand CMD_SET_PIXEL_W
      (loop (loop (booted (at_once
        [CMD_BRIGHTNESS, 128, CMD_STREAM_START, 0, 5, 0, 2, 0, 3, 255, 100, 1, 0, 8, 16, 32, 64])))))
       = Some \<lparr>pixels = (replicate 107 off)[2 := \<lparr>r = 0, g = 0, b = 0, w = 0\<rparr>], out_pin = DEFAULT_LED_PIN\<rparr>
   \<and> ledStrip (processCommand CMD_SET_RANGE_RGBW
      (loop (loop (booted (at_once
        [CMD_BRIGHTNESS, 128, CMD_STREAM_START, 0, 5, 0, 2, 0, 3, 255, 100, 1, 0, 8, 16, 32, 64])))))
       = Some \<lparr>pixels = (replicate 107 off)[2 := \<lparr>r = 127, g = 50, b = 0, w = 0\<rparr>, 3 := \<lparr>r = 127, g = 50, b = 0, w = 0\<rparr>], out_pin = DEFAULT_LED_PIN\<rparr>
   \<and> ledStrip (processCommand CMD_SET_ALL_RGBW
      (loop (loop (booted (at_once
        [CMD_BRIGHTNESS, 128, CMD_STREAM_START, 0, 5, 0, 2, 0, 3, 255, 100, 1, 0, 8, 16, 32, 64])))))
       = Some \<lparr>pixels = replicate 107 \<lparr>r = 0, g = 1, b = 0, w = 1\<rparr>, out_pin = DEFAULT_LED_PIN\<rparr>
   \<and> ledStrip (processCommand CMD_STREAM_DATA
      (loop (loop (booted (at_once
        [CMD_BRIGHTNESS, 128, CMD_STREAM_START, 0, 5, 0, 2, 0, 3, 255, 100, 1, 0, 8, 16, 32, 64])))))
       = Some \<lparr>pixels = (replicate 107 off)[0 := \<lparr>r = 0, g = 1, b = 0, w = 1\<rparr>], out_pin = DEFAULT_LED_PIN\<rparr>
   \<and> ledStrip (processCommand CMD_FILL_GRADIENT
      (loop (loop (booted (at_once
        [CMD_BRIGHTNESS, 128, CMD_STREAM_START, 0, 5, 0, 2, 0, 3, 255, 100, 1, 0, 8, 16, 32, 64])))))
       = Some \<lparr>pixels = (replicate 107 off)[2 := \<lparr>r = 127, g = 50, b = 0, w = 0\<rparr>, 3 := \<lparr>r = 4, g = 8, b = 16, w = 32\<rparr>], out_pin = DEFAULT_LED_PIN\<rparr>
   \<and> ledStrip (processCommand CMD_BULK_UPDATE
      (loop (loop (booted (at_once
        [CMD_BRIGHTNESS, 128, CMD_STREAM_START, 0, 5, 0, 2, 0, 3, 255, 100, 1, 0, 8, 16, 32, 64])))))
       = Some \<lparr>pixels = (replicate 107 off)[0 := \<lparr>r = 0, g = 1, b = 127, w = 50\<rparr>, 1 := \<lparr>r = 0, g = 0, b = 4, w = 8\<rparr>], out_pin = DEFAULT_LED_PIN\<rparr>"
proof -
  let ?P = "[0, 2, 0, 3, 255, 100, 1, 0, 8, 16, 32, 64] :: u8 list"
  let ?boot = "booted (at_once (CMD_BRIGHTNESS # 128 # CMD_STREAM_START # 0 # 5 # ?P))"
  let ?s = "loop (loop ?boot)"
  let ?st = "\<lparr>pixels = replicate 107 off, out_pin = DEFAULT_LED_PIN\<rparr>"
  have b0: "buffered (CMD_BRIGHTNESS # 128 # CMD_STREAM_START # 0 # 5 # ?P) ?boot" by simp
  note l1 = loop_set_brightness [OF b0]
  have i1: "stripInitialized (loop ?boot)" by (simp add: l1(1))
  note l2 = loop_stream_start [OF l1(2) i1]
  note l2' = l2(1) [unfolded l1(1)]
  have f: "stripInitialized ?s" "ledStrip ?s = Some ?st" "globalBrightness ?s = 128"
    "streamMode ?s" "streamIndex ?s = 0" "streamCount ?s = 5" "ledCount ?s = 107"
    by (simp_all add: l1(1) l2' word16_0_5)
  have rx: "rx ?s = at_once ?P" by (simp add: l1(1) l2') (simp add: at_once_def)
  have r: "ready 6 (clock ?s + 1000) ?s" "ready 5 (clock ?s + 1000) ?s"
    "ready 3 (clock ?s + 1000) ?s" "ready 8 (clock ?s + 1000) ?s"
    "ready 4 (clock ?s + 1000) ?s" "ready 12 (clock ?s + 1000) ?s"
    "ready 2 (clock ?s + 1000) ?s"
    by (rule buffered_ready [OF l2(2)], simp)+
  have p6: "payload 6 ?s = [0, 2, 0, 3, 255, 100]"
    using buffered_payload [OF l2(2), of 6] by simp
  have p5: "payload 5 ?s = [0, 2, 0, 3, 255]"
    using buffered_payload [OF l2(2), of 5] by simp
  have p3: "payload 3 ?s = [0, 2, 0]"
    using buffered_payload [OF l2(2), of 3] by simp
  have p8: "payload 8 ?s = [0, 2, 0, 3, 255, 100, 1, 0]"
    using buffered_payload [OF l2(2), of 8] by simp
  have p4: "payload 4 ?s = [0, 2, 0, 3]"
    using buffered_payload [OF l2(2), of 4] by simp
  have p2: "payload 2 ?s = [0, 2]"
    using buffered_payload [OF l2(2), of 2] by simp
  let ?A = "\<lparr>r = 255, g = 100, b = 1, w = 0\<rparr> :: RGBW"
  let ?B = "\<lparr>r = 8, g = 16, b = 32, w = 64\<rparr> :: RGBW"
  have p12: "payload 12 ?s = [0, 2, 0, 3, r ?A, g ?A, b ?A, w ?A, r ?B, g ?B, b ?B, w ?B]"
    using buffered_payload [OF l2(2), of 12] by simp
  have lt: "word16 0 2 < ledCount ?s" "word16 0 2 \<le> word16 0 3" "word16 0 3 < ledCount ?s"
    "word16 0 2 \<le> ledCount ?s"
    by (simp_all add: f word16_0_2 word16_0_3)
  have st: "streamIndex ?s < ledCount ?s" "streamIndex ?s < streamCount ?s"
    by (simp_all add: f)
  have u: "unat (word16 0 2) = 2" "unat (word16 0 3) = 3" "unat (streamIndex ?s) = 0"
    "unat (ledCount ?s) = 107"
    by (simp_all add: f word16_0_2 word16_0_3)
  have clk: "clock (consume 2 ?s) = clock ?s" by (rule buffered_clock [OF l2(2)]) simp
  have pac: "paced (unat (word16 0 2)) 1000 (clock (consume 2 ?s)) (drop 2 (rx ?s))"
    unfolding u clk rx by (simp add: numeral_2_eq_2 at_once_def latest_def)
  have ab: "applyBrightness ?s c =
      \<lparr>r = scale8 128 (r c), g = scale8 128 (g c), b = scale8 128 (b c), w = scale8 128 (w c)\<rparr>"
    for c by (simp add: applyBrightness_def f(3))
  note W = brightness_scaling [where s = "?s" and st = "?st" and A = "?A" and B = "?B",
      THEN conjunct2, THEN conjunct2,
      THEN conjunct2, THEN conjunct2, THEN conjunct2, THEN conjunct2, THEN conjunct2,
      THEN conjunct2, THEN mp, OF conjI [OF f(1,2)]]
  note W1 = W [THEN conjunct1, THEN mp, OF conjI [OF r(1) conjI [OF p6 lt(1)]]]
  note W2 = W [THEN conjunct2, THEN conjunct1, THEN mp, OF conjI [OF r(2) conjI [OF p5 lt(1)]]]
  note W3 = W [THEN conjunct2, THEN conjunct2, THEN conjunct1, THEN mp,
      OF conjI [OF r(3) conjI [OF p3 lt(1)]]]
  note W4 = W [THEN conjunct2, THEN conjunct2, THEN conjunct2, THEN conjunct1, THEN mp,
      OF conjI [OF r(4) conjI [OF p8 conjI [OF lt(2,3)]]]]
  note W5 = W [THEN conjunct2, THEN conjunct2, THEN conjunct2, THEN conjunct2, THEN conjunct1,
      THEN mp, OF conjI [OF r(5) p4]]
  note W6 = W [THEN conjunct2, THEN conjunct2, THEN conjunct2, THEN conjunct2, THEN conjunct2,
      THEN conjunct1, THEN mp, OF conjI [OF r(5) conjI [OF p4 conjI [OF f(4) conjI [OF st]]]]]
  note W7 = W [THEN conjunct2, THEN conjunct2, THEN conjunct2,
      THEN conjunct2, THEN conjunct2, THEN conjunct2, THEN conjunct1, THEN mp,
      OF conjI [OF r(6) conjI [OF p12 conjI [OF lt(2,3)]]]]
  note W8 = W [THEN conjunct2, THEN conjunct2, THEN conjunct2, THEN conjunct2, THEN conjunct2,
      THEN conjunct2, THEN conjunct2, THEN conjunct1, THEN mp,
      OF conjI [OF r(7) conjI [OF p2 conjI [OF lt(4) pac]]]]
  have RGBW: "ledStrip (processCommand CMD_SET_PIXEL_RGBW ?s) = Some \<lparr>pixels = (replicate 107 off)[2 := \<lparr>r = 0, g = 1, b = 127, w = 50\<rparr>], out_pin = DEFAULT_LED_PIN\<rparr>"
    and BUF: "ledStrip (processCommand CMD_BUFFER_PIXEL ?s) = Some \<lparr>pixels = (replicate 107 off)[2 := \<lparr>r = 0, g = 1, b = 127, w = 50\<rparr>], out_pin = DEFAULT_LED_PIN\<rparr>"
    using W1 unfolding u ab by (simp_all add: scale8_128)
  have RGB: "ledStrip (processCommand CMD_SET_PIXEL_RGB ?s) = Some \<lparr>pixels = (replicate 107 off)[2 := \<lparr>r = 0, g = 1, b = 127, w = 0\<rparr>], out_pin = DEFAULT_LED_PIN\<rparr>"
    using W2 unfolding u ab by (simp add: scale8_128)
  have Wo: "ledStrip (processCommand CMD_SET_PIXEL_W ?s) = Some \<lparr>pixels = (replicate 107 off)[2 := \<lparr>r = 0, g = 0, b = 0, w = 0\<rparr>], out_pin = DEFAULT_LED_PIN\<rparr>"
    using W3 unfolding u ab by (simp add: scale8_128)
  have RANGE: "ledStrip (processCommand CMD_SET_RANGE_RGBW ?s) = Some \<lparr>pixels = (replicate 107 off)[2 := \<lparr>r = 127, g = 50, b = 0, w = 0\<rparr>, 3 := \<lparr>r = 127, g = 50, b = 0, w = 0\<rparr>], out_pin = DEFAULT_LED_PIN\<rparr>"
    using W4 unfolding u ab by (simp add: scale8_128)
  have all: "fold (\<lambda>i ps. ps[i := c]) [0..<107] (replicate 107 off) = replicate 107 c" for c
    by (rule fold_update_replicate) simp
  have ALL: "ledStrip (processCommand CMD_SET_ALL_RGBW ?s) = Some \<lparr>pixels = replicate 107 \<lparr>r = 0, g = 1, b = 0, w = 1\<rparr>, out_pin = DEFAULT_LED_PIN\<rparr>"
    using W5 unfolding u ab by (simp add: scale8_128 all)
  have STREAM: "ledStrip (processCommand CMD_STREAM_DATA ?s) = Some \<lparr>pixels = (replicate 107 off)[0 := \<lparr>r = 0, g = 1, b = 0, w = 1\<rparr>], out_pin = DEFAULT_LED_PIN\<rparr>"
    using W6 unfolding u ab by (simp add: scale8_128)
  have gc: "gradientColor (Suc 0) ?A ?B 0 = ?A" "gradientColor (Suc 0) ?A ?B (Suc 0) = ?B"
    by (simp_all add: gradientColor_def lerp8_def map_long_def signed_divide_int_def)
  have up: "[0..<Suc (3 - 2)] = [0, 1]" by (simp add: upt_rec)
  have idx: "Suc (Suc 0) = 2" "Suc (Suc (Suc 0)) = 3" by simp_all
  have GRAD: "ledStrip (processCommand CMD_FILL_GRADIENT ?s) = Some \<lparr>pixels = (replicate 107 off)[2 := \<lparr>r = 127, g = 50, b = 0, w = 0\<rparr>, 3 := \<lparr>r = 4, g = 8, b = 16, w = 32\<rparr>], out_pin = DEFAULT_LED_PIN\<rparr>"
    using W7 unfolding u ab up by (simp add: gc scale8_128 idx)
  have BULK: "ledStrip (processCommand CMD_BULK_UPDATE ?s) = Some \<lparr>pixels = (replicate 107 off)[0 := \<lparr>r = 0, g = 1, b = 127, w = 50\<rparr>, 1 := \<lparr>r = 0, g = 0, b = 4, w = 8\<rparr>], out_pin = DEFAULT_LED_PIN\<rparr>"
    using W8 unfolding u ab rx by (simp add: numeral_2_eq_2 at_once_def scale8_128)
  from f(3) RGBW BUF RGB Wo RANGE ALL STREAM GRAD BULK show ?thesis by (intro conjI)
qed

section \<open>Indices between the allocated length and the LED count\<close>

text \<open>The engine after start-up and one successful set_led_count.\<close>

lemma after_set_led_count:
  assumes "0 < word16 chi clo" "word16 chi clo \<le> 1000"
  shows "stripInitialized (loop (booted (at_once (CMD_SET_LED_COUNT # chi # clo # bs))))"
    and "ledStrip (loop (booted (at_once (CMD_SET_LED_COUNT # chi # clo # bs)))) =
      Some \<lparr>pixels = replicate 107 off, out_pin = DEFAULT_LED_PIN\<rparr>"
    and "ledCount (loop (booted (at_once (CMD_SET_LED_COUNT # chi # clo # bs)))) = word16 chi clo"
    and "globalBrightness (loop (booted (at_once (CMD_SET_LED_COUNT # chi # clo # bs)))) = 255"
    and "tx (loop (booted (at_once (CMD_SET_LED_COUNT # chi # clo # bs)))) = [RESP_OK]"
    and "buffered bs (loop (booted (at_once (CMD_SET_LED_COUNT # chi # clo # bs))))"
proof -
  let ?boot = "booted (at_once (CMD_SET_LED_COUNT # chi # clo # bs))"
  have b: "buffered (CMD_SET_LED_COUNT # chi # clo # bs) ?boot" by simp
  note l = loop_set_led_count [OF b assms]
  show "stripInitialized (loop ?boot)"
    "ledStrip (loop ?boot) = Some \<lparr>pixels = replicate 107 off, out_pin = DEFAULT_LED_PIN\<rparr>"
    "ledCount (loop ?boot) = word16 chi clo" "globalBrightness (loop ?boot) = 255"
    "tx (loop ?boot) = [RESP_OK]"
    by (simp_all add: l(1))
  show "buffered bs (loop ?boot)" by (rule l(2))
qed

lemma word16_0_50: "word16 0 50 = 50"
  by (simp add: word16_def)

lemma word16_0_60: "word16 0 60 = 60"
  by (simp add: word16_def)

lemma full_brightness: "globalBrightness s = 255 \<Longrightarrow> applyBrightness s c = c"
  by (simp add: applyBrightness_def)

theorem set_pixel_then_sync_witness:
  "word16 0 3 < ledCount (booted (at_once [0, 3, 10, 20, 30, 40]))
   \<and> unat (word16 0 3) < length (replicate 107 off)
   \<and> ready 6 (clock (booted (at_once [0, 3, 10, 20, 30, 40])) + 1000)
        (booted (at_once [0, 3, 10, 20, 30, 40]))
   \<and> payload 6 (booted (at_once [0, 3, 10, 20, 30, 40])) = [0, 3, 10, 20, 30, 40]
   \<and> ledStrip (processCommand CMD_SYNC (processCommand CMD_SET_PIXEL_RGBW
         (booted (at_once [0, 3, 10, 20, 30, 40]))))
       = Some \<lparr>pixels = (replicate 107 off)[3 := \<lparr>r = 10, g = 20, b = 30, w = 40\<rparr>],
               out_pin = DEFAULT_LED_PIN\<rparr>
   \<and> tx (processCommand CMD_SYNC (processCommand CMD_SET_PIXEL_RGBW
         (booted (at_once [0, 3, 10, 20, 30, 40])))) = [RESP_OK, RESP_OK]
   \<and> (replicate 107 off)[3 := \<lparr>r = 10, g = 20, b = 30, w = 40\<rparr>] ! 3
       = \<lparr>r = 10, g = 20, b = 30, w = 40\<rparr>
   \<and> word16 1 244
       < ledCount (loop (booted (at_once [CMD_SET_LED_COUNT, 3, 232, 1, 244, 9, 9, 9, 9])))
   \<and> length (replicate 107 off) \<le> unat (word16 1 244)
   \<and> ledStrip (processCommand CMD_SYNC (processCommand CMD_SET_PIXEL_RGBW
         (loop (booted (at_once [CMD_SET_LED_COUNT, 3, 232, 1, 244, 9, 9, 9, 9])))))
       = Some \<lparr>pixels = replicate 107 off, out_pin = DEFAULT_LED_PIN\<rparr>"
proof -
  let ?s = "booted (at_once [0, 3, 10, 20, 30, 40])"
  let ?st = "\<lparr>pixels = replicate 107 off, out_pin = DEFAULT_LED_PIN\<rparr>"
  let ?c = "\<lparr>r = 10, g = 20, b = 30, w = 40\<rparr> :: RGBW"
  have w: "word16 0 3 = 3" by (simp add: word16_def)
  have i: "stripInitialized ?s" "ledStrip ?s = Some ?st" by simp_all
  have l: "word16 0 3 < ledCount ?s" by (simp add: w)
  have cap: "unat (word16 0 3) < length (pixels ?st)" by (simp add: w)
  have r: "ready 6 (clock ?s + 1000) ?s" by (simp add: ready_booted)
  have p: "payload 6 ?s = [0, 3, 10, 20, 30, 40]" by (simp add: payload_booted)
  have ab: "applyBrightness ?s ?c = ?c" by (simp add: applyBrightness_def)
  note th = set_pixel_then_sync [OF i l, where c = "?c"]
  have 1: "ledStrip (processCommand CMD_SYNC (processCommand CMD_SET_PIXEL_RGBW ?s))
       = Some \<lparr>pixels = (replicate 107 off)[3 := ?c], out_pin = DEFAULT_LED_PIN\<rparr>"
    "tx (processCommand CMD_SYNC (processCommand CMD_SET_PIXEL_RGBW ?s)) = [RESP_OK, RESP_OK]"
    using th [THEN conjunct1, THEN mp, OF conjI [OF r p]] w ab by simp_all
  have 2: "(replicate 107 off)[3 := ?c] ! 3 = ?c"
    using th [THEN conjunct2, THEN conjunct2, THEN conjunct2, THEN conjunct2, THEN conjunct1,
        THEN mp, OF cap] w by simp
  let ?t = "loop (booted (at_once [CMD_SET_LED_COUNT, 3, 232, 1, 244, 9, 9, 9, 9]))"
  let ?d = "\<lparr>r = 9, g = 9, b = 9, w = 9\<rparr> :: RGBW"
  have v: "0 < word16 3 232" "word16 3 232 \<le> 1000" by (simp_all add: word16_3_232)
  note f = after_set_led_count [OF v, of "[1, 244, 9, 9, 9, 9]"]
  have lt: "word16 1 244 < ledCount ?t" by (simp add: f(3) word16_3_232 word16_1_244)
  have far: "length (pixels ?st) \<le> unat (word16 1 244)" by (simp add: word16_1_244)
  have rt: "ready 6 (clock ?t + 1000) ?t" by (rule buffered_ready [OF f(6)]) simp
  have pt: "payload 6 ?t = [1, 244, 9, 9, 9, 9]" using buffered_payload [OF f(6), of 6] by simp
  note tt = set_pixel_then_sync [OF f(1,2) lt, where c = "applyBrightness ?t ?d"]
  have 3: "ledStrip (processCommand CMD_SYNC (processCommand CMD_SET_PIXEL_RGBW ?t)) = Some ?st"
    using tt [THEN conjunct1, THEN mp, OF conjI [OF rt pt], THEN conjunct1]
      tt [THEN conjunct2, THEN conjunct2, THEN conjunct2, THEN conjunct2, THEN conjunct2,
        THEN conjunct2, THEN mp, OF far]
    by simp
  have cap': "unat (word16 0 3) < length (replicate 107 off)" using cap by simp
  have far': "length (replicate 107 off) \<le> unat (word16 1 244)" using far by simp
  from l cap' r p 1 2 lt far' 3 show ?thesis by (intro conjI)
qed

text \<open>
  The claim as first stated fails, whichever count ``valid index < count'' refers to.
  After start-up (a strip of 107 pixels) and set_led_count 1000, the index 500 is below
  the LED count: set_pixel 500 with the colour (9, 9, 9, 9) at full brightness, followed
  by sync, answers OK and OK, yet the strip still holds its 107 zero pixels and the
  colour nowhere. After start-up and set_led_count 50, the index 60 addresses a pixel
  of the strip, and set_pixel 60 answers OutOfRange and stores nothing.
\<close>

theorem set_pixel_beyond_the_allocated_strip:
  "word16 1 244
     < ledCount (loop (booted (at_once [CMD_SET_LED_COUNT, 3, 232, 1, 244, 9, 9, 9, 9])))
   \<and> unat (word16 1 244) = 500
   \<and> applyBrightness (loop (booted (at_once [CMD_SET_LED_COUNT, 3, 232, 1, 244, 9, 9, 9, 9])))
        \<lparr>r = 9, g = 9, b = 9, w = 9\<rparr> = \<lparr>r = 9, g = 9, b = 9, w = 9\<rparr>
   \<and> tx (processCommand CMD_SYNC (processCommand CMD_SET_PIXEL_RGBW
         (loop (booted (at_once [CMD_SET_LED_COUNT, 3, 232, 1, 244, 9, 9, 9, 9])))))
       = [RESP_OK, RESP_OK, RESP_OK]
   \<and> ledStrip (processCommand CMD_SYNC (processCommand CMD_SET_PIXEL_RGBW
         (loop (booted (at_once [CMD_SET_LED_COUNT, 3, 232, 1, 244, 9, 9, 9, 9])))))
       = Some \<lparr>pixels = replicate 107 off, out_pin = DEFAULT_LED_PIN\<rparr>
   \<and> \<lparr>r = 9, g = 9, b = 9, w = 9\<rparr> \<notin> set (replicate 107 off)
   \<and> unat (word16 0 60) < length (replicate 107 off)
   \<and> tx (processCommand CMD_SET_PIXEL_RGBW
         (loop (booted (at_once [CMD_SET_LED_COUNT, 0, 50, 0, 60, 9, 9, 9, 9]))))
       = [RESP_OK, RESP_ERROR, ERR_OUT_OF_RANGE]
   \<and> ledStrip (processCommand CMD_SET_PIXEL_RGBW
         (loop (booted (at_once [CMD_SET_LED_COUNT, 0, 50, 0, 60, 9, 9, 9, 9]))))
       = Some \<lparr>pixels = replicate 107 off, out_pin = DEFAULT_LED_PIN\<rparr>"
proof -
  let ?st = "\<lparr>pixels = replicate 107 off, out_pin = DEFAULT_LED_PIN\<rparr>"
  let ?d = "\<lparr>r = 9, g = 9, b = 9, w = 9\<rparr> :: RGBW"
  let ?t = "loop (booted (at_once [CMD_SET_LED_COUNT, 3, 232, 1, 244, 9, 9, 9, 9]))"
  have v: "0 < word16 3 232" "word16 3 232 \<le> 1000" by (simp_all add: word16_3_232)
  note f = after_set_led_count [OF v, of "[1, 244, 9, 9, 9, 9]"]
  have lt: "word16 1 244 < ledCount ?t" by (simp add: f(3) word16_3_232 word16_1_244)
  have u: "unat (word16 1 244) = 500" by (simp add: word16_1_244)
  have ab: "applyBrightness ?t ?d = ?d" by (rule full_brightness [OF f(4)])
  have rt: "ready 6 (clock ?t + 1000) ?t" by (rule buffered_ready [OF f(6)]) simp
  have pt: "payload 6 ?t ! 0 = 1" "payload 6 ?t ! 1 = 244" "payload 6 ?t ! 2 = 9"
    "payload 6 ?t ! 3 = 9" "payload 6 ?t ! 4 = 9" "payload 6 ?t ! 5 = 9"
    using buffered_payload [OF f(6), of 6] by simp_all
  have c0: "processCommand CMD_SET_PIXEL_RGBW s = cmdSetPixelRGBW s" for s
    by (simp add: processCommand_def)
  have e: "processCommand CMD_SET_PIXEL_RGBW ?t =
      sendResponse RESP_OK (strip_sync (strip_set_rgbw 500 ?d (consume 6 ?t)))"
    unfolding c0 cmdSetPixelRGBW_eq [OF f(1) rt] pt u ab using lt by simp
  have 1: "tx (processCommand CMD_SYNC (processCommand CMD_SET_PIXEL_RGBW ?t))
      = [RESP_OK, RESP_OK, RESP_OK]"
    unfolding e sync_set_pixel(2) [OF f(1,2)] by (simp add: f(5))
  have 2: "ledStrip (processCommand CMD_SYNC (processCommand CMD_SET_PIXEL_RGBW ?t)) = Some ?st"
    unfolding e sync_set_pixel(1) [OF f(1,2)] by (simp add: list_update_beyond)
  have 3: "?d \<notin> set (replicate 107 off)" by (simp add: off_def)
  let ?q = "loop (booted (at_once [CMD_SET_LED_COUNT, 0, 50, 0, 60, 9, 9, 9, 9]))"
  have v': "0 < word16 0 50" "word16 0 50 \<le> 1000" by (simp_all add: word16_0_50)
  note g = after_set_led_count [OF v', of "[0, 60, 9, 9, 9, 9]"]
  have ge: "\<not> word16 0 60 < ledCount ?q" by (simp add: g(3) word16_0_50 word16_0_60)
  have rq: "ready 6 (clock ?q + 1000) ?q" by (rule buffered_ready [OF g(6)]) simp
  have pq: "payload 6 ?q ! 0 = 0" "payload 6 ?q ! 1 = 60"
    using buffered_payload [OF g(6), of 6] by simp_all
  have e': "processCommand CMD_SET_PIXEL_RGBW ?q = sendError ERR_OUT_OF_RANGE (consume 6 ?q)"
    unfolding c0 cmdSetPixelRGBW_eq [OF g(1) rq] pq using ge by simp
  have 4: "unat (word16 0 60) < length (replicate 107 off)" by (simp add: word16_0_60)
  have 5: "tx (processCommand CMD_SET_PIXEL_RGBW ?q) = [RESP_OK, RESP_ERROR, ERR_OUT_OF_RANGE]"
    "ledStrip (processCommand CMD_SET_PIXEL_RGBW ?q) = Some ?st"
    unfolding e' by (simp_all add: g(2,5))
  from lt u ab 1 2 3 4 5 show ?thesis by (intro conjI)
qed


lemma word16_0_70: "word16 0 70 = 70"
  by (simp add: word16_def)

lemma word16_0_106: "word16 0 106 = 106"
  by (simp add: word16_def)

lemma word16_0_107: "word16 0 107 = 107"
  by (simp add: word16_def)

text \<open>
  The claim as first stated fails, whichever count ``start \<le> end < count'' refers to.
  After start-up (a strip of 107 pixels) and set_led_count 1000, the range 106 .. 107
  lies below the LED count: fill_gradient from A = (10, 20, 30, 40) to
  B = (50, 60, 70, 80) at full brightness answers OK, index 106 receives A, and the
  colour of step 1, which is B and is meant for index 107, is stored nowhere, the
  strip having only the indices 0 .. 106. After start-up and set_led_count 50, the range
  60 .. 70 lies within the strip, and fill_gradient answers OutOfRange and stores
  nothing.
\<close>

theorem gradient_beyond_the_allocated_strip:
  "word16 0 106 \<le> word16 0 107
   \<and> word16 0 107 < ledCount (loop (booted (at_once
          [CMD_SET_LED_COUNT, 3, 232, 0, 106, 0, 107, 10, 20, 30, 40, 50, 60, 70, 80])))
   \<and> unat (word16 0 106) = 106 \<and> unat (word16 0 107) = 107
   \<and> tx (processCommand CMD_FILL_GRADIENT (loop (booted (at_once
          [CMD_SET_LED_COUNT, 3, 232, 0, 106, 0, 107, 10, 20, 30, 40, 50, 60, 70, 80])))) = [RESP_OK, RESP_OK]
   \<and> ledStrip (processCommand CMD_FILL_GRADIENT (loop (booted (at_once
          [CMD_SET_LED_COUNT, 3, 232, 0, 106, 0, 107, 10, 20, 30, 40, 50, 60, 70, 80]))))
       = Some \<lparr>pixels = (replicate 107 off)[106 := \<lparr>r = 10, g = 20, b = 30, w = 40\<rparr>], out_pin = DEFAULT_LED_PIN\<rparr>
   \<and> length ((replicate 107 off)[106 := \<lparr>r = 10, g = 20, b = 30, w = 40\<rparr>]) = 107
   \<and> applyBrightness (loop (booted (at_once
          [CMD_SET_LED_COUNT, 3, 232, 0, 106, 0, 107, 10, 20, 30, 40, 50, 60, 70, 80]))) (gradientColor 1 \<lparr>r = 10, g = 20, b = 30, w = 40\<rparr> \<lparr>r = 50, g = 60, b = 70, w = 80\<rparr> 1) = \<lparr>r = 50, g = 60, b = 70, w = 80\<rparr>
   \<and> \<lparr>r = 50, g = 60, b = 70, w = 80\<rparr> \<notin> set ((replicate 107 off)[106 := \<lparr>r = 10, g = 20, b = 30, w = 40\<rparr>])
   \<and> word16 0 60 \<le> word16 0 70
   \<and> unat (word16 0 70) < length (replicate 107 off)
   \<and> tx (processCommand CMD_FILL_GRADIENT (loop (booted (at_once
          [CMD_SET_LED_COUNT, 0, 50, 0, 60, 0, 70, 10, 20, 30, 40, 50, 60, 70, 80])))) = [RESP_OK, RESP_ERROR, ERR_OUT_OF_RANGE]
   \<and> ledStrip (processCommand CMD_FILL_GRADIENT (loop (booted (at_once
          [CMD_SET_LED_COUNT, 0, 50, 0, 60, 0, 70, 10, 20, 30, 40, 50, 60, 70, 80]))))
       = Some \<lparr>pixels = replicate 107 off, out_pin = DEFAULT_LED_PIN\<rparr>"
proof -
  let ?st = "\<lparr>pixels = replicate 107 off, out_pin = DEFAULT_LED_PIN\<rparr>"
  let ?A = "\<lparr>r = 10, g = 20, b = 30, w = 40\<rparr> :: RGBW"
  let ?B = "\<lparr>r = 50, g = 60, b = 70, w = 80\<rparr> :: RGBW"
  let ?t = "loop (booted (at_once [CMD_SET_LED_COUNT, 3, 232, 0, 106, 0, 107, 10, 20, 30, 40, 50, 60, 70, 80]))"
  have v: "0 < word16 3 232" "word16 3 232 \<le> 1000" by (simp_all add: word16_3_232)
  note f = after_set_led_count [OF v, of "[0, 106, 0, 107, 10, 20, 30, 40, 50, 60, 70, 80]"]
  have le: "word16 0 106 \<le> word16 0 107" by (simp add: word16_0_106 word16_0_107)
  have lt: "word16 0 107 < ledCount ?t" by (simp add: f(3) word16_3_232 word16_0_107)
  have u: "unat (word16 0 106) = 106" "unat (word16 0 107) = 107"
    by (simp_all add: word16_0_106 word16_0_107)
  have r12: "ready 12 (clock ?t + 1000) ?t" by (rule buffered_ready [OF f(6)]) simp
  have p12: "payload 12 ?t = [0, 106, 0, 107] @ wire ?A @ wire ?B"
    using buffered_payload [OF f(6), of 12] by (simp add: wire_def)
  note fs = fill_gradient_store [OF f(1,2) r12 p12 le lt refl refl refl]
  have ab: "applyBrightness ?t c = c" for c by (rule full_brightness [OF f(4)])
  have gc: "gradientColor (Suc 0) ?A ?B 0 = ?A" "gradientColor (Suc 0) ?A ?B (Suc 0) = ?B"
    by (simp_all add: gradientColor_def lerp8_def map_long_def signed_divide_int_def)
  have up: "[0..<Suc (107 - 106)] = [0, 1]" by (simp add: upt_rec)
  have 1: "tx (processCommand CMD_FILL_GRADIENT ?t) = [RESP_OK, RESP_OK]"
    using fs(3) by (simp add: f(5))
  have 2: "ledStrip (processCommand CMD_FILL_GRADIENT ?t)
       = Some \<lparr>pixels = (replicate 107 off)[106 := ?A], out_pin = DEFAULT_LED_PIN\<rparr>"
    using fs(1) unfolding u ab up by (simp add: gc list_update_beyond)
  have 3: "length ((replicate 107 off)[106 := ?A]) = 107" by simp
  have 4: "applyBrightness ?t (gradientColor 1 ?A ?B 1) = ?B"
    unfolding ab by (simp add: gc)
  have "set ((replicate 107 off)[106 := ?A]) \<subseteq> insert ?A (set (replicate 107 off))"
    by (rule set_update_subset_insert)
  then have 5: "?B \<notin> set ((replicate 107 off)[106 := ?A])"
    by (auto simp: off_def)
  let ?q = "loop (booted (at_once [CMD_SET_LED_COUNT, 0, 50, 0, 60, 0, 70, 10, 20, 30, 40, 50, 60, 70, 80]))"
  have v': "0 < word16 0 50" "word16 0 50 \<le> 1000" by (simp_all add: word16_0_50)
  note g = after_set_led_count [OF v', of "[0, 60, 0, 70, 10, 20, 30, 40, 50, 60, 70, 80]"]
  have ge: "\<not> word16 0 60 < ledCount ?q" by (simp add: g(3) word16_0_50 word16_0_60)
  have rq: "ready 12 (clock ?q + 1000) ?q" by (rule buffered_ready [OF g(6)]) simp
  have pq: "payload 12 ?q ! 0 = 0" "payload 12 ?q ! 1 = 60"
    using buffered_payload [OF g(6), of 12] by simp_all
  have c0: "processCommand CMD_FILL_GRADIENT s = cmdFillGradient s" for s
    by (simp add: processCommand_def)
  have e': "processCommand CMD_FILL_GRADIENT ?q = sendError ERR_OUT_OF_RANGE (consume 12 ?q)"
    unfolding c0 cmdFillGradient_eq [OF g(1) rq] pq using ge by simp
  have 6: "word16 0 60 \<le> word16 0 70" "unat (word16 0 70) < length (replicate 107 off)"
    by (simp_all add: word16_0_60 word16_0_70)
  have 7: "tx (processCommand CMD_FILL_GRADIENT ?q) = [RESP_OK, RESP_ERROR, ERR_OUT_OF_RANGE]"
    "ledStrip (processCommand CMD_FILL_GRADIENT ?q) = Some ?st"
    unfolding e' by (simp_all add: g(2,5))
  from le lt u 1 2 3 4 5 6 7 show ?thesis by (intro conjI)
qed

section \<open>The store is initialized whenever a command is processed\<close>

lemma flag_bulkLoop [simp]:
  "stripInitialized (snd (bulkLoop i n to st s)) = stripInitialized s"
proof (induction i n to st s rule: bulkLoop.induct)
  case (1 i count timeout startTime s)
  show ?case
  proof (cases "i < count")
    case False
    then show ?thesis by (subst bulkLoop.simps) simp
  next
    case True
    show ?thesis
    proof (cases "waitLoop 4 startTime timeout s")
      case (Pair ok s1)
      have s1: "stripInitialized s1 = stripInitialized s"
        using waitLoop_keeps(4) [of 4 startTime timeout s] Pair by simp
      show ?thesis
      proof (cases ok)
        case False
        with True Pair s1 show ?thesis by (subst bulkLoop.simps) simp
      next
        case ok: True
        obtain color s2 where rd: "readRGBW s1 = (color, s2)" by (cases "readRGBW s1")
        have s2: "stripInitialized s2 = stripInitialized s1"
          using readRGBW_keeps(4) [of s1] rd by simp
        have okT: "ok = True" using ok by simp
        from "1.IH" [OF True Pair [symmetric] okT refl rd [symmetric] refl refl]
        have "stripInitialized (snd (bulkLoop (Suc i) count timeout
                (millis (strip_set_rgbw i (applyBrightness s2 color) s2))
                (strip_set_rgbw i (applyBrightness s2 color) s2))) = stripInitialized s"
          using s1 s2 by simp
        with True Pair ok rd show ?thesis
          by (subst bulkLoop.simps) (simp add: Let_def)
      qed
    qed
  qed
qed

lemma flag_gradientStep [simp]:
  "stripInitialized (gradientStep a n c1 c2 i s) = stripInitialized s"
  by (simp add: gradientStep_def Let_def)

lemma flag_fold_set [simp]:
  "stripInitialized (fold (\<lambda>i. strip_set_rgbw (idx i) (c i)) js s) = stripInitialized s"
  by (rule field_fold) simp

lemma flag_fold_gradient [simp]:
  "stripInitialized (fold (gradientStep a n c1 c2) js s) = stripInitialized s"
  by (rule field_fold) simp

lemma flag_handlers:
  "stripInitialized (cmdSetLedCount s) = stripInitialized s"
  "stripInitialized (cmdSetLedPin s) = stripInitialized s"
  "stripInitialized (cmdSetPixelRGBW s) = stripInitialized s"
  "stripInitialized (cmdSetPixelRGB s) = stripInitialized s"
  "stripInitialized (cmdSetPixelW s) = stripInitialized s"
  "stripInitialized (cmdSetRangeRGBW s) = stripInitialized s"
  "stripInitialized (cmdSetAllRGBW s) = stripInitialized s"
  "stripInitialized (cmdClearAll s) = stripInitialized s"
  "stripInitialized (cmdBufferStart s) = stripInitialized s"
  "stripInitialized (cmdBufferPixel s) = stripInitialized s"
  "stripInitialized (cmdBufferEnd s) = stripInitialized s"
  "stripInitialized (cmdStreamStart s) = stripInitialized s"
  "stripInitialized (cmdStreamData s) = stripInitialized s"
  "stripInitialized (cmdStreamEnd s) = stripInitialized s"
  "stripInitialized (cmdBulkUpdate s) = stripInitialized s"
  "stripInitialized (cmdFillGradient s) = stripInitialized s"
  "stripInitialized (cmdSetBrightness s) = stripInitialized s"
  unfolding cmdSetLedCount_def cmdSetLedPin_def cmdSetPixelRGBW_def cmdSetPixelRGB_def
    cmdSetPixelW_def cmdSetRangeRGBW_def cmdSetAllRGBW_def cmdClearAll_def cmdBufferStart_def
    cmdBufferPixel_def cmdBufferEnd_def cmdStreamStart_def cmdStreamData_def cmdStreamEnd_def
    cmdBulkUpdate_def cmdFillGradient_def cmdSetBrightness_def
  by (simp_all add: split_def Let_def split: bool.splits)

lemma flag_processCommand:
  "stripInitialized s \<Longrightarrow> stripInitialized (processCommand cmd s)"
  by (simp add: processCommand_def flag_handlers initializeStrip_eq sendInfo_def)

lemma flag_loop: "stripInitialized s \<Longrightarrow> stripInitialized (loop s)"
  by (simp add: loop_def split_def Let_def flag_processCommand)

lemma flag_flash: "stripInitialized (fold (\<lambda>i. flashOnce) js s) = stripInitialized s"
  by (rule field_fold) (simp add: flashOnce_def Let_def delay_def)

lemma flag_setup: "stripInitialized (setup_board s)"
  by (simp add: setup_board_def Let_def flag_flash initializeStrip_eq)

lemma flag_running: "stripInitialized s \<Longrightarrow> stripInitialized (running ts s)"
  by (induction ts arbitrary: s) (simp_all add: flag_loop delay_def)



end
